theory Spec2Isabelle
  imports Main
begin

section \<open>The lazy-loading pipeline of \<^verbatim>\<open>src/js/modules/LazyLoading.js\<close>\<close>

text \<open>
  The class \<^verbatim>\<open>LazyLoading\<close> is embedded as functions on an explicit state. The
  browser is the environment: the document, the intersection observer, the network and
  the timer queue are fields of the state, and what the browser does later (an image
  finishes loading, a timer fires) is an event applied to the state.

  JavaScript values. A property that may be \<^verbatim>\<open>undefined\<close> is a \<open>string option\<close>
  (\<open>None\<close> is \<^verbatim>\<open>undefined\<close>); the empty string and \<^verbatim>\<open>undefined\<close> are the
  falsy values. URLs are taken as already absolute, so that \<^verbatim>\<open>img.src\<close> reads back
  the string that was assigned.
\<close>

subsection \<open>JavaScript strings\<close>

definition truthy :: "string option \<Rightarrow> bool" where
  "truthy v = (case v of None \<Rightarrow> False | Some s \<Rightarrow> s \<noteq> [])"

definition js_or :: "string option \<Rightarrow> string option \<Rightarrow> string option" where
  \<comment> \<open>\<^verbatim>\<open>a || b\<close>\<close>
  "js_or a b = (if truthy a then a else b)"

subsection \<open>Options, elements, state\<close>

text \<open>
  The options object of the constructor. The three selectors are modelled at their
  default values (\<^verbatim>\<open>img[loading="lazy"], img[data-src]\<close>, \<^verbatim>\<open>[data-bg]\<close>,
  \<^verbatim>\<open>[data-lazy]\<close>) by the predicates \<open>matches_image\<close>, \<open>matches_background\<close> and
  \<open>matches_content\<close>; \<^verbatim>\<open>rootMargin\<close> and \<^verbatim>\<open>threshold\<close> only configure the browser's
  observer. \<^verbatim>\<open>retryAttempts\<close>, \<^verbatim>\<open>retryDelay\<close> and \<^verbatim>\<open>fadeInDuration\<close> are counts
  and milliseconds: natural numbers.
\<close>

record options =
  loadingClass :: string
  loadedClass :: string
  errorClass :: string
  fadeInDuration :: nat
  enableNativeLoading :: bool
  retryAttempts :: nat
  retryDelay :: nat

definition default_options :: options where
  "default_options =
     \<lparr>loadingClass = ''lazy-loading'', loadedClass = ''lazy-loaded'',
      errorClass = ''lazy-error'', fadeInDuration = 300, enableNativeLoading = True,
      retryAttempts = 2, retryDelay = 1000\<rparr>"

text \<open>
  A DOM element, with the properties the module reads or writes. \<open>src\<close> is the
  \<^verbatim>\<open>src\<close> property (\<open>None\<close> on an element that has none, \<open>Some []\<close> on an image
  without the attribute); \<open>data_x\<close> is \<^verbatim>\<open>dataset.x\<close>, \<open>None\<close> when the attribute is
  absent. \<open>style_transition\<close> is \<open>Some d\<close> for \<^verbatim>\<open>opacity d ms ease-in-out\<close> and
  \<open>None\<close> for the empty string. \<open>inner\<close> lists the elements created by the markup
  assigned to \<^verbatim>\<open>innerHTML\<close>. \<open>attr_loading\<close> is the \<^verbatim>\<open>loading\<close> attribute of the markup,
  which the selector \<^verbatim>\<open>img[loading="lazy"]\<close> reads; \<open>loading\<close> is the property
  \<^verbatim>\<open>img.loading\<close>, which \<^verbatim>\<open>collectElements\<close> reads: \<open>None\<close> on an element other than
  an image and in a browser without native lazy loading, where the property does not
  exist. \<open>img_complete\<close> and \<open>naturalWidth\<close> are kept by the browser. Elements are never
  removed from the document: a placeholder is taken to have no tracked descendants before
  its fragment arrives.
\<close>

record element =
  tagName :: string
  src :: "string option"
  srcset :: "string option"
  sizes :: "string option"
  attr_loading :: "string option"
  loading :: "string option"
  img_complete :: bool
  naturalWidth :: nat
  data_src :: "string option"
  data_srcset :: "string option"
  data_sizes :: "string option"
  data_bg :: "string option"
  data_lazy :: "string option"
  data_placeholder :: "string option"
  classList :: "string list"
  backgroundImage :: string
  style_opacity :: string
  style_transition :: "nat option"
  inner :: "nat list"

datatype kind = KImage | KBackground | KContent

text \<open>
  A promise returned by a loader is rejected either inside \<^verbatim>\<open>loadElement\<close>, whose
  \<^verbatim>\<open>catch\<close> block calls \<^verbatim>\<open>handleLoadError\<close> (\<open>Rehandle\<close>), or inside
  \<^verbatim>\<open>loadAllImmediately\<close>, whose \<^verbatim>\<open>.catch(() => {})\<close> drops it (\<open>Swallow\<close>).
\<close>

datatype handler = Rehandle | Swallow

text \<open>A request in flight: element, loader variant, the URL captured at the start, and
  the continuation of a rejection.\<close>

datatype request = Request nat kind string handler

text \<open>What the network answers: for a fragment, the elements its markup creates.\<close>

datatype outcome = Success "element list" | Failure

datatype task = Retry nat | ClearStyle nat

text \<open>The observable calls, each with the time at which it was made.\<close>

datatype action =
    Called nat
  | Scheduled "string option" nat nat
  | LazyLoaded nat
  | LazyError nat nat

datatype error = TypeError | SyntaxError

text \<open>
  The state: the document (an element is identified by its position), the fields of the
  \<^verbatim>\<open>LazyLoading\<close> object (\<open>observer\<close> is \<open>None\<close> for \<^verbatim>\<open>null\<close>, otherwise the
  registered targets), the requests in flight, the timer queue with absolute due times,
  the animation-frame callbacks, the clock and the trace of observable calls.
  \<open>abandoned\<close> holds the observers that \<^verbatim>\<open>this.observer\<close> referred to when
  \<^verbatim>\<open>setupObserver\<close> replaced them, each with its registered targets: they are not
  disconnected, and the browser goes on notifying \<^verbatim>\<open>handleIntersection\<close> for them.
\<close>

record state =
  doc :: "element list"
  observer :: "nat list option"
  abandoned :: "nat list list"
  images :: "nat list"
  backgrounds :: "nat list"
  content :: "nat list"
  loadAttempts :: "string option \<rightharpoonup> nat"
  pending :: "request list"
  timers :: "(nat \<times> task) list"
  frames :: "nat list"
  now :: nat
  trace :: "(nat \<times> action) list"

definition upd_elem :: "nat \<Rightarrow> (element \<Rightarrow> element) \<Rightarrow> state \<Rightarrow> state" where
  "upd_elem i f st = st\<lparr>doc := (doc st)[i := f (doc st ! i)]\<rparr>"

definition emit :: "action \<Rightarrow> state \<Rightarrow> state" where
  "emit a st = st\<lparr>trace := trace st @ [(now st, a)]\<rparr>"

definition setTimeout :: "task \<Rightarrow> nat \<Rightarrow> state \<Rightarrow> state" where
  "setTimeout t d st = st\<lparr>timers := timers st @ [(now st + d, t)]\<rparr>"

subsection \<open>Class lists\<close>

definition add_class :: "string \<Rightarrow> string list \<Rightarrow> string list" where
  "add_class c cs = (if c \<in> set cs then cs else cs @ [c])"

definition remove_class :: "string \<Rightarrow> string list \<Rightarrow> string list" where
  "remove_class c cs = filter (\<lambda>x. x \<noteq> c) cs"

subsection \<open>The observer primitive\<close>

definition observe :: "nat \<Rightarrow> state \<Rightarrow> state" where
  \<comment> \<open>on a non-null observer; observing a registered target changes nothing\<close>
  "observe i st =
     st\<lparr>observer := map_option (\<lambda>obs. if i \<in> set obs then obs else obs @ [i]) (observer st)\<rparr>"

definition unobserve :: "nat \<Rightarrow> state \<Rightarrow> state" where
  "unobserve i st = st\<lparr>observer := map_option (filter (\<lambda>x. x \<noteq> i)) (observer st)\<rparr>"

definition registered :: "state \<Rightarrow> nat set" where
  "registered st = (case observer st of None \<Rightarrow> {} | Some obs \<Rightarrow> set obs)"

subsection \<open>\<^verbatim>\<open>collectElements\<close>\<close>

definition matches_image :: "element \<Rightarrow> bool" where
  \<comment> \<open>\<^verbatim>\<open>img[loading="lazy"], img[data-src]\<close>\<close>
  "matches_image e =
     (tagName e = ''IMG'' \<and> (attr_loading e = Some ''lazy'' \<or> data_src e \<noteq> None))"

definition matches_background :: "element \<Rightarrow> bool" where
  "matches_background e = (data_bg e \<noteq> None)"

definition matches_content :: "element \<Rightarrow> bool" where
  "matches_content e = (data_lazy e \<noteq> None)"

definition keep_image :: "options \<Rightarrow> element \<Rightarrow> bool" where
  "keep_image opts img =
     (if img_complete img \<and> naturalWidth img > 0 then False
      else if loading img = Some ''lazy'' \<and> \<not> truthy (data_src img) \<and>
              enableNativeLoading opts
      then False
      else True)"

definition querySelectorAll :: "(element \<Rightarrow> bool) \<Rightarrow> element list \<Rightarrow> nat list" where
  "querySelectorAll sel d = filter (\<lambda>i. sel (d ! i)) [0..<length d]"

definition collectElements :: "options \<Rightarrow> state \<Rightarrow> state" where
  "collectElements opts st =
     st\<lparr>images := filter (\<lambda>i. keep_image opts (doc st ! i))
                   (querySelectorAll matches_image (doc st)),
        backgrounds := querySelectorAll matches_background (doc st),
        content := querySelectorAll matches_content (doc st)\<rparr>"

subsection \<open>\<^verbatim>\<open>observeElements\<close>\<close>

text \<open>On a \<^verbatim>\<open>null\<close> observer the first \<^verbatim>\<open>this.observer.observe(element)\<close> throws, before
  the class is added.\<close>

fun observe_each :: "options \<Rightarrow> nat list \<Rightarrow> state \<Rightarrow> (error \<times> state) + state" where
  "observe_each opts [] st = Inr st"
| "observe_each opts (i # rest) st =
     (if observer st = None then Inl (TypeError, st)
      else observe_each opts rest
             (upd_elem i (\<lambda>e. e\<lparr>classList := add_class (loadingClass opts) (classList e)\<rparr>)
                (observe i st)))"

definition observeElements :: "options \<Rightarrow> state \<Rightarrow> (error \<times> state) + state" where
  "observeElements opts st = observe_each opts (images st @ backgrounds st @ content st) st"

subsection \<open>\<^verbatim>\<open>onElementLoaded\<close> and \<^verbatim>\<open>handleLoadError\<close>\<close>

definition onElementLoaded :: "options \<Rightarrow> nat \<Rightarrow> state \<Rightarrow> state" where
  "onElementLoaded opts i st =
     (let st1 = upd_elem i (\<lambda>e. e\<lparr>classList :=
                  add_class (loadedClass opts) (remove_class (loadingClass opts) (classList e))\<rparr>) st;
          st2 = (if fadeInDuration opts > 0
                 then setTimeout (ClearStyle i) (fadeInDuration opts + 50)
                        ((upd_elem i (\<lambda>e. e\<lparr>style_opacity := ''0'',
                             style_transition := Some (fadeInDuration opts)\<rparr>) st1)
                           \<lparr>frames := frames st1 @ [i]\<rparr>)
                 else st1)
      in emit (LazyLoaded i) st2)"

definition attemptKey :: "element \<Rightarrow> string option" where
  \<comment> \<open>\<^verbatim>\<open>element.src || element.dataset.src || element.dataset.bg\<close>\<close>
  "attemptKey e = js_or (js_or (src e) (data_src e)) (data_bg e)"

definition get_attempts :: "state \<Rightarrow> string option \<Rightarrow> nat" where
  \<comment> \<open>\<^verbatim>\<open>this.loadAttempts.get(attemptKey) || 0\<close>\<close>
  "get_attempts st k = (case loadAttempts st k of None \<Rightarrow> 0 | Some n \<Rightarrow> n)"

definition handleLoadError :: "options \<Rightarrow> nat \<Rightarrow> state \<Rightarrow> state" where
  "handleLoadError opts i st =
     (let key = attemptKey (doc st ! i);
          attempts = get_attempts st key
      in if attempts < retryAttempts opts
         then emit (Scheduled key i (retryDelay opts * (attempts + 1)))
                (setTimeout (Retry i) (retryDelay opts * (attempts + 1))
                   (st\<lparr>loadAttempts := (loadAttempts st)(key \<mapsto> attempts + 1)\<rparr>))
         else emit (LazyError i (attempts + 1))
                (upd_elem i
                   (\<lambda>e. if tagName e = ''IMG'' \<and> truthy (data_placeholder e)
                         then e\<lparr>src := data_placeholder e\<rparr> else e)
                   (upd_elem i (\<lambda>e. e\<lparr>classList :=
                       add_class (errorClass opts)
                         (remove_class (loadingClass opts) (classList e))\<rparr>) st)))"

definition rejected :: "options \<Rightarrow> handler \<Rightarrow> nat \<Rightarrow> state \<Rightarrow> state" where
  "rejected opts h i st = (case h of Rehandle \<Rightarrow> handleLoadError opts i st | Swallow \<Rightarrow> st)"

subsection \<open>The loaders\<close>

text \<open>
  Each loader returns a promise. Its executor runs at once: it either rejects (no URL),
  settles (\<^verbatim>\<open>loadContent\<close> without URL) or leaves a request in flight. A rejection
  reaches its \<^verbatim>\<open>catch\<close> in a microtask of the same turn; the model runs it in place.
  The \<^verbatim>\<open>srcset\<close> given to the off-DOM image only guides the preload and is left out.
\<close>

definition loadImage :: "options \<Rightarrow> handler \<Rightarrow> nat \<Rightarrow> state \<Rightarrow> state" where
  "loadImage opts h i st =
     (let img = doc st ! i; s = js_or (data_src img) (src img)
      in if \<not> truthy s then rejected opts h i st
         else st\<lparr>pending := pending st @ [Request i KImage (the s) h]\<rparr>)"

definition loadBackground :: "options \<Rightarrow> handler \<Rightarrow> nat \<Rightarrow> state \<Rightarrow> state" where
  "loadBackground opts h i st =
     (let bgUrl = data_bg (doc st ! i)
      in if \<not> truthy bgUrl then rejected opts h i st
         else st\<lparr>pending := pending st @ [Request i KBackground (the bgUrl) h]\<rparr>)"

definition loadContent :: "options \<Rightarrow> handler \<Rightarrow> nat \<Rightarrow> state \<Rightarrow> state" where
  "loadContent opts h i st =
     (let contentUrl = data_lazy (doc st ! i)
      in if \<not> truthy contentUrl then onElementLoaded opts i st
         else st\<lparr>pending := pending st @ [Request i KContent (the contentUrl) h]\<rparr>)"

definition loadElement :: "options \<Rightarrow> nat \<Rightarrow> state \<Rightarrow> state" where
  "loadElement opts i st =
     (let st1 = emit (Called i) st; element = doc st ! i
      in if tagName element = ''IMG'' then loadImage opts Rehandle i st1
         else if truthy (data_bg element) then loadBackground opts Rehandle i st1
         else if truthy (data_lazy element) then loadContent opts Rehandle i st1
         else st1)"

subsection \<open>\<^verbatim>\<open>processNewContent\<close>\<close>

fun process_each :: "options \<Rightarrow> nat list \<Rightarrow> state \<Rightarrow> (error \<times> state) + state" where
  "process_each opts [] st = Inr st"
| "process_each opts (i # rest) st =
     (if loadingClass opts \<in> set (classList (doc st ! i)) then process_each opts rest st
      else if observer st = None then Inl (TypeError, st)
      else process_each opts rest
             (upd_elem i (\<lambda>e. e\<lparr>classList := add_class (loadingClass opts) (classList e)\<rparr>)
                (observe i st)))"

definition descendants :: "state \<Rightarrow> nat \<Rightarrow> nat list" where
  \<comment> \<open>the elements below a container are those its markup created\<close>
  "descendants st container =
     (if container < length (doc st) then inner (doc st ! container) else [])"

definition processNewContent :: "options \<Rightarrow> nat \<Rightarrow> state \<Rightarrow> (error \<times> state) + state" where
  "processNewContent opts container st =
     (let desc = descendants st container
      in process_each opts
           (filter (\<lambda>i. matches_image (doc st ! i)) desc @
            filter (\<lambda>i. matches_background (doc st ! i)) desc @
            filter (\<lambda>i. matches_content (doc st ! i)) desc) st)"

subsection \<open>Completion of a request\<close>

definition imageLoader_onload :: "options \<Rightarrow> nat \<Rightarrow> state \<Rightarrow> state" where
  "imageLoader_onload opts i st =
     onElementLoaded opts i
       (upd_elem i
          (\<lambda>img. let img1 = (if truthy (data_src img)
                              then img\<lparr>src := data_src img, data_src := None\<rparr> else img);
                      img2 = (if truthy (data_srcset img1)
                              then img1\<lparr>srcset := data_srcset img1, data_srcset := None\<rparr>
                              else img1)
                  in if truthy (data_sizes img2)
                     then img2\<lparr>sizes := data_sizes img2, data_sizes := None\<rparr> else img2)
          st)"

definition background_onload :: "options \<Rightarrow> nat \<Rightarrow> string \<Rightarrow> state \<Rightarrow> state" where
  "background_onload opts i bgUrl st =
     onElementLoaded opts i
       (upd_elem i (\<lambda>e. e\<lparr>backgroundImage := ''url('' @ bgUrl @ '')'', data_bg := None\<rparr>) st)"

definition loader_failed :: "options \<Rightarrow> handler \<Rightarrow> nat \<Rightarrow> state \<Rightarrow> state" where
  \<comment> \<open>\<^verbatim>\<open>this.handleLoadError(element, error); reject(error);\<close>\<close>
  "loader_failed opts h i st = rejected opts h i (handleLoadError opts i st)"

definition content_loaded :: "options \<Rightarrow> handler \<Rightarrow> nat \<Rightarrow> element list \<Rightarrow> state \<Rightarrow> state" where
  "content_loaded opts h i html st =
     (let n = length (doc st);
          st1 = upd_elem i (\<lambda>e. e\<lparr>inner := [n..<n + length html], data_lazy := None\<rparr>)
                  (st\<lparr>doc := doc st @ html\<rparr>)
      in case processNewContent opts i st1 of
           Inl (err, st2) \<Rightarrow> loader_failed opts h i st2
         | Inr st2 \<Rightarrow> onElementLoaded opts i st2)"

definition settle :: "options \<Rightarrow> request \<Rightarrow> outcome \<Rightarrow> state \<Rightarrow> state" where
  "settle opts r out st =
     (case r of Request i k url h \<Rightarrow>
        (case out of
           Failure \<Rightarrow> loader_failed opts h i st
         | Success html \<Rightarrow>
             (case k of
                KImage \<Rightarrow> imageLoader_onload opts i st
              | KBackground \<Rightarrow> background_onload opts i url st
              | KContent \<Rightarrow> content_loaded opts h i html st)))"

definition complete :: "options \<Rightarrow> nat \<Rightarrow> outcome \<Rightarrow> state \<Rightarrow> state" where
  \<comment> \<open>the \<open>n\<close>-th request in flight is answered\<close>
  "complete opts n out st =
     (if n < length (pending st)
      then settle opts (pending st ! n) out
             (st\<lparr>pending := take n (pending st) @ drop (Suc n) (pending st)\<rparr>)
      else st)"

subsection \<open>\<^verbatim>\<open>handleIntersection\<close>\<close>

text \<open>An entry is its target and \<^verbatim>\<open>isIntersecting\<close>.\<close>

fun handleIntersection ::
  "options \<Rightarrow> (nat \<times> bool) list \<Rightarrow> state \<Rightarrow> (error \<times> state) + state" where
  "handleIntersection opts [] st = Inr st"
| "handleIntersection opts ((target, isIntersecting) # entries) st =
     (if isIntersecting
      then (let st1 = loadElement opts target st
            in if observer st1 = None then Inl (TypeError, st1)
               else handleIntersection opts entries (unobserve target st1))
      else handleIntersection opts entries st)"

subsection \<open>Lifecycle\<close>

definition loadAllImmediately :: "options \<Rightarrow> state \<Rightarrow> state" where
  "loadAllImmediately opts st =
     (let st1 = collectElements opts st;
          st2 = fold (loadImage opts Swallow) (images st1) st1;
          st3 = fold (loadBackground opts Swallow) (backgrounds st1) st2
      in fold (loadContent opts Swallow) (content st1) st3)"

text \<open>\<^verbatim>\<open>this.observer = new IntersectionObserver(...)\<close>: the observer that the field
  referred to is replaced without being disconnected.\<close>

definition setupObserver :: "state \<Rightarrow> state" where
  "setupObserver st =
     st\<lparr>abandoned := (case observer st of None \<Rightarrow> abandoned st
                       | Some obs \<Rightarrow> abandoned st @ [obs]),
        observer := Some []\<rparr>"

definition init :: "options \<Rightarrow> bool \<Rightarrow> state \<Rightarrow> (error \<times> state) + state" where
  \<comment> \<open>the flag is \<^verbatim>\<open>'IntersectionObserver' in window\<close>; \<^verbatim>\<open>setupNativeLoading\<close> only logs\<close>
  "init opts hasObserver st =
     (if \<not> hasObserver then Inr (loadAllImmediately opts st)
      else observeElements opts (collectElements opts (setupObserver st)))"

definition loadNow :: "options \<Rightarrow> nat \<Rightarrow> state \<Rightarrow> state" where
  "loadNow opts i st = loadElement opts i (unobserve i st)"

definition loadAll :: "options \<Rightarrow> state \<Rightarrow> state" where
  "loadAll opts st =
     (let has = (\<lambda>i. loadingClass opts \<in> set (classList (doc st ! i)));
          pendingElements = filter has (images st) @ filter has (backgrounds st) @
                            filter has (content st)
      in fold (\<lambda>i s. loadElement opts i (unobserve i s)) pendingElements st)"

definition disconnect :: "state \<Rightarrow> state" where
  "disconnect st = st\<lparr>observer := map_option (\<lambda>obs. []) (observer st)\<rparr>"

definition refresh :: "options \<Rightarrow> state \<Rightarrow> (error \<times> state) + state" where
  "refresh opts st = observeElements opts (collectElements opts (disconnect st))"

definition has_marker :: "options \<Rightarrow> element \<Rightarrow> bool" where
  "has_marker opts e =
     (loadingClass opts \<in> set (classList e) \<or> loadedClass opts \<in> set (classList e) \<or>
      errorClass opts \<in> set (classList e))"

text \<open>
  \<^verbatim>\<open>destroy()\<close> finds the marked elements with the selector
  \<^verbatim>\<open>.${loadingClass}, .${loadedClass}, .${errorClass}\<close>. A class name is put into the
  selector as it is, so it has to be a CSS identifier: a name such as \<^verbatim>\<open>2x-loaded\<close>,
  which \<^verbatim>\<open>classList.add\<close> accepts, makes \<^verbatim>\<open>querySelectorAll\<close> throw a
  \<^verbatim>\<open>SyntaxError\<close>, after the observer has been dropped and before anything is cleared.
  Class names are taken to consist of letters, digits, hyphens, underscores and non-ASCII
  characters; a name with any other character would form a selector of another shape,
  which is not followed here and counts as no identifier.
\<close>

definition ident_start :: "char \<Rightarrow> bool" where
  \<comment> \<open>a letter, an underscore or a non-ASCII character\<close>
  "ident_start c =
     (let n = (of_char c :: nat)
      in (65 \<le> n \<and> n \<le> 90) \<or> (97 \<le> n \<and> n \<le> 122) \<or> n = 95 \<or> 128 \<le> n)"

definition ident_char :: "char \<Rightarrow> bool" where
  \<comment> \<open>also a digit or a hyphen\<close>
  "ident_char c =
     (let n = (of_char c :: nat) in ident_start c \<or> (48 \<le> n \<and> n \<le> 57) \<or> n = 45)"

definition css_ident :: "string \<Rightarrow> bool" where
  "css_ident s =
     (case s of
        [] \<Rightarrow> False
      | c # cs \<Rightarrow>
          list_all ident_char s \<and>
          (if c = CHR ''-''
           then (case cs of [] \<Rightarrow> False | d # ds \<Rightarrow> ident_start d \<or> d = CHR ''-'')
           else ident_start c))"

definition destroy :: "options \<Rightarrow> state \<Rightarrow> (error \<times> state) + state" where
  "destroy opts st =
     (let st1 = st\<lparr>observer := None\<rparr>
      in if \<not> (css_ident (loadingClass opts) \<and> css_ident (loadedClass opts) \<and>
                css_ident (errorClass opts))
         then Inl (SyntaxError, st1)
         else Inr (st1\<lparr>doc := map (\<lambda>e. if has_marker opts e
                        then e\<lparr>classList := remove_class (errorClass opts)
                                 (remove_class (loadedClass opts)
                                    (remove_class (loadingClass opts) (classList e))),
                               style_opacity := [], style_transition := None\<rparr>
                        else e) (doc st),
                 images := [], backgrounds := [], content := [],
                 loadAttempts := Map.empty\<rparr>))"

text \<open>The state a call leaves behind, whether it returned or threw.\<close>

definition state_of :: "(error \<times> state) + state \<Rightarrow> state" where
  "state_of r = (case r of Inl (err, st) \<Rightarrow> st | Inr st \<Rightarrow> st)"

subsection \<open>Timers and frames\<close>

definition run_task :: "options \<Rightarrow> task \<Rightarrow> state \<Rightarrow> state" where
  "run_task opts t st =
     (case t of
        Retry i \<Rightarrow> loadElement opts i st
      | ClearStyle i \<Rightarrow> upd_elem i (\<lambda>e. e\<lparr>style_opacity := [], style_transition := None\<rparr>) st)"

definition fire :: "options \<Rightarrow> nat \<Rightarrow> state \<Rightarrow> state" where
  \<comment> \<open>the \<open>n\<close>-th timer runs, once it is due\<close>
  "fire opts n st =
     (if n < length (timers st) \<and> fst (timers st ! n) \<le> now st
      then run_task opts (snd (timers st ! n))
             (st\<lparr>timers := take n (timers st) @ drop (Suc n) (timers st)\<rparr>)
      else st)"

definition animationFrame :: "state \<Rightarrow> state" where
  "animationFrame st =
     fold (\<lambda>i. upd_elem i (\<lambda>e. e\<lparr>style_opacity := ''1''\<rparr>)) (frames st) (st\<lparr>frames := []\<rparr>)"

definition tick :: "nat \<Rightarrow> state \<Rightarrow> state" where
  "tick d st = st\<lparr>now := now st + d\<rparr>"

subsection \<open>Executions\<close>

text \<open>
  What can happen to a pipeline: a call of its interface, or the browser delivering a
  notification, an answer, a timer or a frame. A call that throws leaves its state.
  \<^verbatim>\<open>init()\<close> is its synchronous part: without an observer its promise resolves once
  the requests it started are answered. A notification is delivered to
  \<^verbatim>\<open>handleIntersection\<close> whichever observer it comes from, the one
  \<^verbatim>\<open>this.observer\<close> refers to or an abandoned one.
\<close>

datatype event =
    EvInit bool
  | EvIntersect "(nat \<times> bool) list"
  | EvComplete nat outcome
  | EvFire nat
  | EvFrame
  | EvTick nat
  | EvRefresh
  | EvLoadNow nat
  | EvLoadAll
  | EvDestroy

fun step :: "options \<Rightarrow> state \<Rightarrow> event \<Rightarrow> state" where
  "step opts st (EvInit b) = state_of (init opts b st)"
| "step opts st (EvIntersect entries) = state_of (handleIntersection opts entries st)"
| "step opts st (EvComplete n out) = complete opts n out st"
| "step opts st (EvFire n) = fire opts n st"
| "step opts st EvFrame = animationFrame st"
| "step opts st (EvTick d) = tick d st"
| "step opts st EvRefresh = state_of (refresh opts st)"
| "step opts st (EvLoadNow i) = loadNow opts i st"
| "step opts st EvLoadAll = loadAll opts st"
| "step opts st EvDestroy = state_of (destroy opts st)"

definition run :: "options \<Rightarrow> state \<Rightarrow> event list \<Rightarrow> state" where
  "run opts st evs = foldl (step opts) st evs"

definition fresh :: "element list \<Rightarrow> state" where
  \<comment> \<open>the state after the constructor, on a document\<close>
  "fresh d =
     \<lparr>doc = d, observer = None, abandoned = [], images = [], backgrounds = [],
      content = [],
      loadAttempts = Map.empty, pending = [], timers = [], frames = [], now = 0, trace = []\<rparr>"

subsection \<open>Example documents\<close>

definition blank :: element where
  "blank =
     \<lparr>tagName = ''DIV'', src = None, srcset = None, sizes = None, attr_loading = None,
      loading = None,
      img_complete = False, naturalWidth = 0, data_src = None, data_srcset = None,
      data_sizes = None, data_bg = None, data_lazy = None, data_placeholder = None,
      classList = [], backgroundImage = [], style_opacity = [], style_transition = None,
      inner = []\<rparr>"

definition lazy_img :: "string \<Rightarrow> element" where
  \<comment> \<open>\<^verbatim>\<open><img data-src="url">\<close>\<close>
  "lazy_img url = blank\<lparr>tagName := ''IMG'', src := Some [], loading := Some ''eager'',
                        img_complete := True, data_src := Some url\<rparr>"

definition placeholder_div :: "string \<Rightarrow> element" where
  \<comment> \<open>\<^verbatim>\<open><div data-lazy="url"></div>\<close>\<close>
  "placeholder_div url = blank\<lparr>data_lazy := Some url\<rparr>"

subsection \<open>Registrations and teardown\<close>

text \<open>The targets registered with any observer, the one of \<^verbatim>\<open>this.observer\<close> or an
  abandoned one.\<close>

definition registrations :: "state \<Rightarrow> nat set" where
  "registrations st = registered st \<union> set (concat (abandoned st))"

text \<open>An execution in which \<^verbatim>\<open>init()\<close> is not called on a pipeline that has an
  observer.\<close>

fun single_observer :: "options \<Rightarrow> state \<Rightarrow> event list \<Rightarrow> bool" where
  "single_observer opts st [] = True"
| "single_observer opts st (ev # evs) =
     ((case ev of EvInit b \<Rightarrow> b \<longrightarrow> observer st = None | _ \<Rightarrow> True) \<and>
      single_observer opts (step opts st ev) evs)"

definition gallery :: "element list" where
  \<comment> \<open>\<^verbatim>\<open><img data-src="a.jpg">\<close> and \<^verbatim>\<open><div data-bg="bg.png">\<close>\<close>
  "gallery = [lazy_img ''a.jpg'', blank\<lparr>data_bg := Some ''bg.png''\<rparr>]"

definition gallery_events :: "event list" where
  \<comment> \<open>both scroll into view; the image fails, the background loads\<close>
  "gallery_events =
     [EvInit True, EvIntersect [(0, True), (1, True)], EvComplete 0 Failure,
      EvComplete 0 (Success [])]"

definition initialised_twice :: state where
  \<comment> \<open>\<^verbatim>\<open>init()\<close> twice, then \<^verbatim>\<open>refresh()\<close> and \<^verbatim>\<open>destroy()\<close>\<close>
  "initialised_twice =
     run default_options (fresh gallery) [EvInit True, EvInit True, EvRefresh, EvDestroy]"

definition retina_options :: options where
  \<comment> \<open>\<^verbatim>\<open>new LazyLoading({ loadedClass: '2x-loaded' })\<close>\<close>
  "retina_options = default_options\<lparr>loadedClass := ''2x-loaded''\<rparr>"

definition retina_refreshed :: state where
  "retina_refreshed = run retina_options (fresh gallery) (gallery_events @ [EvRefresh])"

subsection \<open>Counting calls\<close>

text \<open>The calls of \<^verbatim>\<open>loadElement\<close> on an element that a trace records.\<close>

definition calls :: "nat \<Rightarrow> (nat \<times> action) list \<Rightarrow> nat" where
  "calls i tr = length (filter (\<lambda>p. snd p = Called i) tr)"




definition observed_state :: state where
  \<comment> \<open>one lazy image, registered by \<^verbatim>\<open>init()\<close>\<close>
  "observed_state = state_of (init default_options True (fresh [lazy_img ''a.jpg'']))"


subsection \<open>Content elements\<close>

text \<open>The elements that \<^verbatim>\<open>loadElement\<close> hands to \<^verbatim>\<open>loadContent\<close>, whose fetch can
  fail: not an image, no non-empty \<^verbatim>\<open>data-bg\<close>, a non-empty \<^verbatim>\<open>data-lazy\<close>.\<close>

definition content_element :: "element \<Rightarrow> bool" where
  "content_element e =
     (tagName e \<noteq> ''IMG'' \<and> \<not> truthy (data_bg e) \<and> truthy (data_lazy e))"

definition two_placeholders :: state where
  \<comment> \<open>two placeholders; one failure is already recorded under \<^verbatim>\<open>undefined\<close>\<close>
  "two_placeholders =
     (fresh [placeholder_div ''/a.html'', placeholder_div ''/b.html''])
       \<lparr>loadAttempts := [None \<mapsto> 1]\<rparr>"

definition keyed_placeholders :: "element list" where
  \<comment> \<open>\<^verbatim>\<open><div data-lazy="/a.html">\<close> and \<^verbatim>\<open><div data-lazy="/b.html" data-src="/b.html">\<close>\<close>
  "keyed_placeholders =
     [placeholder_div ''/a.html'', (placeholder_div ''/b.html'')\<lparr>data_src := Some ''/b.html''\<rparr>]"

definition keyed_run :: state where
  \<comment> \<open>the first placeholder scrolls into view and its fetch fails, then the second\<close>
  "keyed_run =
     run default_options (fresh keyed_placeholders)
       [EvInit True, EvIntersect [(0, True)], EvComplete 0 Failure,
        EvIntersect [(1, True)], EvComplete 0 Failure]"

subsection \<open>Example executions\<close>

definition no_payload_image :: state where
  \<comment> \<open>\<^verbatim>\<open><img data-src="">\<close> is collected, registered, and scrolls into view\<close>
  "no_payload_image =
     run default_options (fresh [lazy_img []]) [EvInit True, EvIntersect [(0, True)]]"

definition no_payload_doc :: state where
  "no_payload_doc = fresh [lazy_img [], blank]"

definition resolved_image :: state where
  \<comment> \<open>a lazy image scrolls into view and loads; the fade-in has run\<close>
  "resolved_image =
     run default_options (fresh [lazy_img ''a.jpg''])
       [EvInit True, EvIntersect [(0, True)], EvComplete 0 (Success []), EvFrame,
        EvTick 350, EvFire 0]"

definition loaded_again :: state where
  \<comment> \<open>a second load of the resolved image\<close>
  "loaded_again = run default_options resolved_image [EvLoadNow 0, EvComplete 0 (Success [])]"

definition registered_again :: state where
  \<comment> \<open>\<^verbatim>\<open><img loading="lazy" data-src="a.jpg">\<close> in a browser without \<^verbatim>\<open>img.loading\<close>:
      the image scrolls into view and loads, then \<^verbatim>\<open>refresh()\<close>\<close>
  "registered_again =
     run default_options
       (fresh [(lazy_img ''a.jpg'')\<lparr>attr_loading := Some ''lazy'', loading := None\<rparr>])
       [EvInit True, EvIntersect [(0, True)], EvComplete 0 (Success []), EvRefresh]"

definition unresolved_image :: state where
  \<comment> \<open>\<^verbatim>\<open><img loading="lazy" data-src="a.jpg" data-srcset="a.jpg 2x">\<close>, registered\<close>
  "unresolved_image =
     (fresh [(lazy_img ''a.jpg'')\<lparr>attr_loading := Some ''lazy'', loading := Some ''lazy'',
                data_srcset := Some ''a.jpg 2x'', classList := [''lazy-loading'']\<rparr>])
       \<lparr>observer := Some []\<rparr>"

subsection \<open>Marker classes\<close>

text \<open>The marker classes an element carries, and the invariant that every element of
  the document carries at most one. An element is settled when it carries the loaded or
  the error class.\<close>

definition markers :: "options \<Rightarrow> element \<Rightarrow> string list" where
  "markers opts e =
     filter (\<lambda>c. c \<in> set (classList e)) [loadingClass opts, loadedClass opts, errorClass opts]"

definition one_marker :: "options \<Rightarrow> state \<Rightarrow> bool" where
  "one_marker opts st = list_all (\<lambda>e. length (markers opts e) \<le> 1) (doc st)"

definition settled :: "options \<Rightarrow> element \<Rightarrow> bool" where
  "settled opts e = (loadedClass opts \<in> set (classList e) \<or> errorClass opts \<in> set (classList e))"

definition errored_then_refreshed :: state where
  \<comment> \<open>an image fails on every attempt until it is marked errored; then \<^verbatim>\<open>refresh()\<close>\<close>
  "errored_then_refreshed =
     run default_options (fresh [lazy_img ''a.jpg''])
       [EvInit True, EvIntersect [(0, True)], EvComplete 0 Failure, EvTick 1000, EvFire 0,
        EvComplete 0 Failure, EvTick 1000, EvFire 0, EvComplete 0 Failure, EvRefresh]"

definition marked_state :: state where
  \<comment> \<open>a container with one lazy image below it, which is also on the image roster\<close>
  "marked_state =
     (fresh [blank\<lparr>inner := [1]\<rparr>, lazy_img ''b.jpg''])\<lparr>observer := Some [], images := [1]\<rparr>"

subsection \<open>The requests of the fallback\<close>

text \<open>The requests that \<^verbatim>\<open>loadAllImmediately\<close> starts for an image, a background
  and a placeholder of a document.\<close>

definition image_request :: "element list \<Rightarrow> nat \<Rightarrow> request" where
  "image_request d i = Request i KImage (the (js_or (data_src (d ! i)) (src (d ! i)))) Swallow"

definition background_request :: "element list \<Rightarrow> nat \<Rightarrow> request" where
  "background_request d i = Request i KBackground (the (data_bg (d ! i))) Swallow"

definition content_request :: "element list \<Rightarrow> nat \<Rightarrow> request" where
  "content_request d i = Request i KContent (the (data_lazy (d ! i))) Swallow"

definition fallback_no_payload :: state where
  \<comment> \<open>\<^verbatim>\<open>init()\<close> without an observer, on \<^verbatim>\<open><img data-src="">\<close>\<close>
  "fallback_no_payload = state_of (init default_options False (fresh [lazy_img []]))"

definition mixed_doc :: state where
  \<comment> \<open>an image, a background, an empty and a real placeholder, an image without payload\<close>
  "mixed_doc =
     fresh [lazy_img ''a.jpg'', blank\<lparr>data_bg := Some ''bg.png''\<rparr>, placeholder_div [],
            placeholder_div ''/f.html'', lazy_img []]"

subsection \<open>Retries and errors in a trace\<close>

text \<open>
  Whether an action is the \<^verbatim>\<open>lazyError\<close> of an element, whether a trace holds one, and
  the calls of \<^verbatim>\<open>loadElement\<close> on the element up to its first \<^verbatim>\<open>lazyError\<close>.
\<close>

definition is_error :: "nat \<Rightarrow> action \<Rightarrow> bool" where
  "is_error i a = (case a of LazyError j n \<Rightarrow> j = i | _ \<Rightarrow> False)"

definition errored :: "nat \<Rightarrow> (nat \<times> action) list \<Rightarrow> bool" where
  "errored i tr = list_ex (\<lambda>p. is_error i (snd p)) tr"

definition calls_before_error :: "nat \<Rightarrow> (nat \<times> action) list \<Rightarrow> nat" where
  "calls_before_error i tr = calls i (takeWhile (\<lambda>p. \<not> is_error i (snd p)) tr)"

text \<open>The retry timers of an element that have not fired, the element of a request, and
  the attempt counts that the \<^verbatim>\<open>lazyError\<close> notifications of a trace carry.\<close>

definition retries_waiting :: "nat \<Rightarrow> state \<Rightarrow> nat" where
  "retries_waiting i st = length (filter (\<lambda>p. snd p = Retry i) (timers st))"

definition req_elem :: "request \<Rightarrow> nat" where
  "req_elem r = (case r of Request j k url h \<Rightarrow> j)"

definition error_counts :: "(nat \<times> action) list \<Rightarrow> nat list" where
  "error_counts tr = concat (map (\<lambda>p. case snd p of LazyError j n \<Rightarrow> [n] | _ \<Rightarrow> []) tr)"

text \<open>No counter exceeds \<^verbatim>\<open>retryAttempts\<close>.\<close>

definition bounded :: "options \<Rightarrow> state \<Rightarrow> bool" where
  "bounded opts st = (\<forall>k. get_attempts st k \<le> retryAttempts opts)"

text \<open>
  The invariant of the retry policy, for a trace that had length \<open>m\<close> at the start: the
  counters are bounded, and every \<^verbatim>\<open>lazyError\<close> dispatched since carries
  \<^verbatim>\<open>retryAttempts + 1\<close>.
\<close>

definition policy_inv :: "options \<Rightarrow> nat \<Rightarrow> state \<Rightarrow> bool" where
  "policy_inv opts m st =
     (bounded opts st \<and> m \<le> length (trace st) \<and>
      (\<forall>n \<in> set (error_counts (drop m (trace st))). n = retryAttempts opts + 1))"

text \<open>
  The invariant of one element \<open>i\<close> with payload key \<open>k0\<close>, under which the count was
  \<open>c0\<close> at the start. Until the element is marked errored its key stays \<open>k0\<close>, and every
  call of \<^verbatim>\<open>loadElement\<close> on it but the first, and every retry timer still waiting for
  it, is paid for by one increment of the count under \<open>k0\<close>; \<open>b\<close> is a call that is due.
  Afterwards the number of calls made before the first \<^verbatim>\<open>lazyError\<close> is kept.
\<close>

definition attempt_inv :: "options \<Rightarrow> nat \<Rightarrow> string option \<Rightarrow> nat \<Rightarrow> nat \<Rightarrow> state \<Rightarrow> bool" where
  "attempt_inv opts i k0 c0 b st =
     (i < length (doc st) \<and>
      (if errored i (trace st)
       then calls_before_error i (trace st) + c0 \<le> retryAttempts opts + 1
       else attemptKey (doc st ! i) = k0 \<and>
            calls i (trace st) + retries_waiting i st + c0 + b \<le> 1 + get_attempts st k0))"

text \<open>
  An execution in which element \<open>i\<close> is not triggered again and none of its requests
  succeeds: no notification reports it, neither \<^verbatim>\<open>loadNow\<close> on it nor \<^verbatim>\<open>loadAll\<close>,
  no \<^verbatim>\<open>init\<close> without observer, no \<^verbatim>\<open>destroy\<close>. Everything else may happen, to this
  and to other elements.
\<close>

definition allowed :: "nat \<Rightarrow> state \<Rightarrow> event \<Rightarrow> bool" where
  "allowed i st ev =
     (case ev of
        EvInit b \<Rightarrow> b
      | EvIntersect es \<Rightarrow> (i, True) \<notin> set es
      | EvComplete n out \<Rightarrow>
          n < length (pending st) \<and> req_elem (pending st ! n) = i \<longrightarrow> out = Failure
      | EvLoadNow j \<Rightarrow> j \<noteq> i
      | EvLoadAll \<Rightarrow> False
      | EvDestroy \<Rightarrow> False
      | _ \<Rightarrow> True)"

fun failing :: "options \<Rightarrow> nat \<Rightarrow> state \<Rightarrow> event list \<Rightarrow> bool" where
  "failing opts i st [] = True"
| "failing opts i st (ev # evs) = (allowed i st ev \<and> failing opts i (step opts st ev) evs)"

text \<open>Two images with the same URL: the first fails until it is marked errored, then
  the second scrolls into view and fails once.\<close>

definition shared_url_run :: state where
  "shared_url_run =
     run default_options (fresh [lazy_img ''a.jpg'', lazy_img ''a.jpg''])
       [EvInit True, EvIntersect [(0, True)], EvComplete 0 Failure, EvTick 1000, EvFire 0,
        EvComplete 0 Failure, EvIntersect [(1, True)], EvComplete 0 Failure]"

text \<open>Every request fails at once; the timers fire when they are due.\<close>

definition failing_events :: "event list" where
  "failing_events =
     [EvComplete 0 Failure, EvTick 1000, EvFire 0, EvComplete 0 Failure, EvTick 1000,
      EvFire 0, EvComplete 0 Failure]"

text \<open>The scenario of the specification: one image with an unreachable URL, default
  options; each request fails as soon as it is made.\<close>

definition unreachable_image_run :: state where
  "unreachable_image_run =
     run default_options (fresh [lazy_img ''a.jpg''])
       [EvInit True, EvIntersect [(0, True)], EvComplete 0 Failure, EvTick 1000, EvFire 0,
        EvComplete 0 Failure, EvTick 1000, EvFire 0, EvComplete 0 Failure]"

section \<open>Properties\<close>

subsection \<open>Frame lemmas\<close>

lemma upd_elem_frame [simp]:
  "observer (upd_elem i f st) = observer st"
  "images (upd_elem i f st) = images st"
  "backgrounds (upd_elem i f st) = backgrounds st"
  "content (upd_elem i f st) = content st"
  "loadAttempts (upd_elem i f st) = loadAttempts st"
  "pending (upd_elem i f st) = pending st"
  "timers (upd_elem i f st) = timers st"
  "frames (upd_elem i f st) = frames st"
  "now (upd_elem i f st) = now st"
  "trace (upd_elem i f st) = trace st"
  "length (doc (upd_elem i f st)) = length (doc st)"
  by (simp_all add: upd_elem_def)

lemma observe_frame [simp]:
  "doc (observe i st) = doc st"
  "images (observe i st) = images st"
  "backgrounds (observe i st) = backgrounds st"
  "content (observe i st) = content st"
  "loadAttempts (observe i st) = loadAttempts st"
  "pending (observe i st) = pending st"
  "timers (observe i st) = timers st"
  "frames (observe i st) = frames st"
  "now (observe i st) = now st"
  "trace (observe i st) = trace st"
  by (simp_all add: observe_def)

lemma emit_frame [simp]:
  "doc (emit a st) = doc st"
  "observer (emit a st) = observer st"
  "images (emit a st) = images st"
  "backgrounds (emit a st) = backgrounds st"
  "content (emit a st) = content st"
  "loadAttempts (emit a st) = loadAttempts st"
  "pending (emit a st) = pending st"
  "timers (emit a st) = timers st"
  "frames (emit a st) = frames st"
  "now (emit a st) = now st"
  "trace (emit a st) = trace st @ [(now st, a)]"
  by (simp_all add: emit_def)

lemma setTimeout_frame [simp]:
  "doc (setTimeout t d st) = doc st"
  "observer (setTimeout t d st) = observer st"
  "images (setTimeout t d st) = images st"
  "backgrounds (setTimeout t d st) = backgrounds st"
  "content (setTimeout t d st) = content st"
  "loadAttempts (setTimeout t d st) = loadAttempts st"
  "pending (setTimeout t d st) = pending st"
  "timers (setTimeout t d st) = timers st @ [(now st + d, t)]"
  "frames (setTimeout t d st) = frames st"
  "now (setTimeout t d st) = now st"
  "trace (setTimeout t d st) = trace st"
  by (simp_all add: setTimeout_def)

lemma unobserve_frame [simp]:
  "doc (unobserve i st) = doc st"
  "images (unobserve i st) = images st"
  "backgrounds (unobserve i st) = backgrounds st"
  "content (unobserve i st) = content st"
  "loadAttempts (unobserve i st) = loadAttempts st"
  "pending (unobserve i st) = pending st"
  "timers (unobserve i st) = timers st"
  "frames (unobserve i st) = frames st"
  "now (unobserve i st) = now st"
  "trace (unobserve i st) = trace st"
  by (simp_all add: unobserve_def)

lemma registered_unobserve [simp]: "registered (unobserve i st) = registered st - {i}"
  by (auto simp: unobserve_def registered_def split: option.splits)

lemma registered_cong: "observer st' = observer st \<Longrightarrow> registered st' = registered st"
  by (simp add: registered_def)

lemma observe_observer: "observer (observe i st) = None \<longleftrightarrow> observer st = None"
  by (simp add: observe_def)

lemma registered_observe:
  "observer st \<noteq> None \<Longrightarrow> registered (observe i st) = insert i (registered st)"
  by (auto simp: observe_def registered_def split: if_splits)

lemma registered_upd_elem [simp]: "registered (upd_elem i f st) = registered st"
  by (simp add: registered_def)

subsection \<open>Observer and document length\<close>

lemma handleLoadError_shape [simp]:
  "observer (handleLoadError opts i st) = observer st"
  "length (doc (handleLoadError opts i st)) = length (doc st)"
  "pending (handleLoadError opts i st) = pending st"
  "now (handleLoadError opts i st) = now st"
  "frames (handleLoadError opts i st) = frames st"
  by (simp_all add: handleLoadError_def Let_def)

lemma onElementLoaded_shape [simp]:
  "observer (onElementLoaded opts i st) = observer st"
  "length (doc (onElementLoaded opts i st)) = length (doc st)"
  "pending (onElementLoaded opts i st) = pending st"
  "now (onElementLoaded opts i st) = now st"
  "loadAttempts (onElementLoaded opts i st) = loadAttempts st"
  by (simp_all add: onElementLoaded_def Let_def)

lemma rejected_shape [simp]:
  "observer (rejected opts h i st) = observer st"
  "length (doc (rejected opts h i st)) = length (doc st)"
  "pending (rejected opts h i st) = pending st"
  "now (rejected opts h i st) = now st"
  by (simp_all add: rejected_def split: handler.splits)

lemma loaders_shape [simp]:
  "observer (loadImage opts h i st) = observer st"
  "length (doc (loadImage opts h i st)) = length (doc st)"
  "observer (loadBackground opts h i st) = observer st"
  "length (doc (loadBackground opts h i st)) = length (doc st)"
  "observer (loadContent opts h i st) = observer st"
  "length (doc (loadContent opts h i st)) = length (doc st)"
  "now (loadImage opts h i st) = now st"
  "now (loadBackground opts h i st) = now st"
  "now (loadContent opts h i st) = now st"
  by (simp_all add: loadImage_def loadBackground_def loadContent_def Let_def)

lemma loadElement_shape [simp]:
  "observer (loadElement opts i st) = observer st"
  "length (doc (loadElement opts i st)) = length (doc st)"
  "now (loadElement opts i st) = now st"
  by (simp_all add: loadElement_def Let_def)

lemma loader_failed_shape [simp]:
  "observer (loader_failed opts h i st) = observer st"
  "length (doc (loader_failed opts h i st)) = length (doc st)"
  by (simp_all add: loader_failed_def)

lemma onload_shape [simp]:
  "observer (imageLoader_onload opts i st) = observer st"
  "length (doc (imageLoader_onload opts i st)) = length (doc st)"
  "observer (background_onload opts i u st) = observer st"
  "length (doc (background_onload opts i u st)) = length (doc st)"
  by (simp_all add: imageLoader_onload_def background_onload_def)







subsection \<open>Registration\<close>

lemma observe_each_frame:
  "loadAttempts (state_of (observe_each opts xs st)) = loadAttempts st \<and>
   images (state_of (observe_each opts xs st)) = images st \<and>
   backgrounds (state_of (observe_each opts xs st)) = backgrounds st \<and>
   content (state_of (observe_each opts xs st)) = content st \<and>
   trace (state_of (observe_each opts xs st)) = trace st \<and>
   timers (state_of (observe_each opts xs st)) = timers st \<and>
   pending (state_of (observe_each opts xs st)) = pending st"
  by (induction xs arbitrary: st) (simp_all add: state_of_def)

lemma observe_each_registered:
  "observer st \<noteq> None \<Longrightarrow>
   \<exists>st'. observe_each opts xs st = Inr st' \<and> observer st' \<noteq> None \<and>
         registered st' = registered st \<union> set xs"
proof (induction xs arbitrary: st)
  case Nil
  then show ?case by simp
next
  case (Cons x xs)
  let ?s = "upd_elem x (\<lambda>e. e\<lparr>classList := add_class (loadingClass opts) (classList e)\<rparr>)
              (observe x st)"
  have "observer ?s \<noteq> None"
    using Cons.prems by (simp add: observe_observer)
  from Cons.IH[OF this] obtain st' where
    "observe_each opts xs ?s = Inr st'" "observer st' \<noteq> None"
    "registered st' = registered ?s \<union> set xs"
    by blast
  then show ?case
    using Cons.prems by (auto simp: registered_observe)
qed

lemma observe_each_null:
  "observer st = None \<Longrightarrow>
   observe_each opts xs st = (if xs = [] then Inr st else Inl (TypeError, st))"
  by (cases xs) simp_all

subsection \<open>Calls recorded in the trace\<close>

lemma calls_append [simp]: "calls i (tr @ tr') = calls i tr + calls i tr'"
  by (simp add: calls_def)

lemma calls_single [simp]:
  "calls i [(t, Called j)] = (if i = j then 1 else 0)"
  "calls i [(t, Scheduled k j d)] = 0"
  "calls i [(t, LazyLoaded j)] = 0"
  "calls i [(t, LazyError j n)] = 0"
  by (auto simp: calls_def)

lemma calls_Nil [simp]: "calls i [] = 0"
  by (simp add: calls_def)

lemma handleLoadError_calls [simp]:
  "calls i (trace (handleLoadError opts j st)) = calls i (trace st)"
  by (simp add: handleLoadError_def Let_def)

lemma onElementLoaded_calls [simp]:
  "calls i (trace (onElementLoaded opts j st)) = calls i (trace st)"
  by (simp add: onElementLoaded_def Let_def)

lemma rejected_calls [simp]:
  "calls i (trace (rejected opts h j st)) = calls i (trace st)"
  by (simp add: rejected_def split: handler.splits)

lemma loaders_calls [simp]:
  "calls i (trace (loadImage opts h j st)) = calls i (trace st)"
  "calls i (trace (loadBackground opts h j st)) = calls i (trace st)"
  "calls i (trace (loadContent opts h j st)) = calls i (trace st)"
  by (simp_all add: loadImage_def loadBackground_def loadContent_def Let_def)

lemma loadElement_calls [simp]:
  "calls i (trace (loadElement opts j st)) = calls i (trace st) + (if i = j then 1 else 0)"
  by (simp add: loadElement_def Let_def)

subsection \<open>One trigger per registration\<close>

lemma registered_loadElement [simp]: "registered (loadElement opts i st) = registered st"
  by (simp add: registered_def)






lemma fold_loaders_shape:
  "observer (fold (loadImage opts h) xs st) = observer st \<and>
   length (doc (fold (loadImage opts h) xs st)) = length (doc st)"
  "observer (fold (loadBackground opts h) xs st) = observer st \<and>
   length (doc (fold (loadBackground opts h) xs st)) = length (doc st)"
  "observer (fold (loadContent opts h) xs st) = observer st \<and>
   length (doc (fold (loadContent opts h) xs st)) = length (doc st)"
  by (induction xs arbitrary: st) simp_all

lemma collectElements_frame [simp]:
  "doc (collectElements opts st) = doc st"
  "observer (collectElements opts st) = observer st"
  "loadAttempts (collectElements opts st) = loadAttempts st"
  "pending (collectElements opts st) = pending st"
  "timers (collectElements opts st) = timers st"
  "frames (collectElements opts st) = frames st"
  "now (collectElements opts st) = now st"
  "trace (collectElements opts st) = trace st"
  by (simp_all add: collectElements_def)

lemma loadAllImmediately_shape:
  "observer (loadAllImmediately opts st) = observer st \<and>
   length (doc (loadAllImmediately opts st)) = length (doc st)"
  by (simp add: loadAllImmediately_def Let_def fold_loaders_shape)










subsection \<open>The retry policy\<close>

lemma get_attempts_frame [simp]:
  "get_attempts (emit a st) = get_attempts st"
  "get_attempts (setTimeout t d st) = get_attempts st"
  "get_attempts (upd_elem i f st) = get_attempts st"
  by (simp_all add: get_attempts_def fun_eq_iff)

lemma doc_upd_elem_nth:
  "i < length (doc st) \<Longrightarrow> doc (upd_elem i f st) ! i = f (doc st ! i)"
  by (simp add: upd_elem_def)

lemma doc_upd_elem_other:
  "j \<noteq> i \<Longrightarrow> doc (upd_elem i f st) ! j = doc st ! j"
  by (simp add: upd_elem_def)

lemma doc_upd_elem_cases:
  "doc (upd_elem x f st) ! i =
     (if i = x \<and> x < length (doc st) then f (doc st ! x) else doc st ! i)"
  by (cases "x < length (doc st)") (simp_all add: upd_elem_def list_update_beyond not_less)

lemma handleLoadError_retry:
  assumes "get_attempts st (attemptKey (doc st ! i)) < retryAttempts opts"
  shows "doc (handleLoadError opts i st) = doc st"
    and "loadAttempts (handleLoadError opts i st) =
           (loadAttempts st)(attemptKey (doc st ! i) \<mapsto>
              get_attempts st (attemptKey (doc st ! i)) + 1)"
    and "timers (handleLoadError opts i st) =
           timers st @ [(now st + retryDelay opts *
              (get_attempts st (attemptKey (doc st ! i)) + 1), Retry i)]"
    and "trace (handleLoadError opts i st) =
           trace st @ [(now st, Scheduled (attemptKey (doc st ! i)) i
              (retryDelay opts * (get_attempts st (attemptKey (doc st ! i)) + 1)))]"
  using assms by (simp_all add: handleLoadError_def Let_def)

lemma handleLoadError_terminal:
  assumes "\<not> get_attempts st (attemptKey (doc st ! i)) < retryAttempts opts"
  shows "loadAttempts (handleLoadError opts i st) = loadAttempts st"
    and "timers (handleLoadError opts i st) = timers st"
    and "trace (handleLoadError opts i st) =
           trace st @ [(now st, LazyError i (get_attempts st (attemptKey (doc st ! i)) + 1))]"
    and "j \<noteq> i \<Longrightarrow> doc (handleLoadError opts i st) ! j = doc st ! j"
    and "i < length (doc st) \<Longrightarrow> classList (doc (handleLoadError opts i st) ! i) =
           add_class (errorClass opts) (remove_class (loadingClass opts) (classList (doc st ! i)))"
    and "i < length (doc st) \<Longrightarrow> tagName (doc st ! i) \<noteq> ''IMG'' \<Longrightarrow>
           doc (handleLoadError opts i st) ! i =
             (doc st ! i)\<lparr>classList := add_class (errorClass opts)
                (remove_class (loadingClass opts) (classList (doc st ! i)))\<rparr>"
  using assms by (simp_all add: handleLoadError_def Let_def doc_upd_elem_nth doc_upd_elem_other)

lemma attemptKey_classList [simp]: "attemptKey (e\<lparr>classList := c\<rparr>) = attemptKey e"
  by (simp add: attemptKey_def)

lemma add_class_mem [simp]: "c \<in> set (add_class c cs)"
  by (simp add: add_class_def)

lemma content_key:
  "attemptKey e = None \<longleftrightarrow> \<not> truthy (src e) \<and> \<not> truthy (data_src e) \<and> data_bg e = None"
  by (auto simp: attemptKey_def js_or_def truthy_def split: option.splits)

lemma content_failure_terminal:
  assumes j: "j < length (doc st)" and c: "tagName (doc st ! j) \<noteq> ''IMG''"
    and k: "attemptKey (doc st ! j) = None"
    and full: "retryAttempts opts \<le> get_attempts st None"
  shows "errorClass opts \<in> set (classList (doc (loader_failed opts h j st) ! j)) \<and>
         timers (loader_failed opts h j st) = timers st \<and>
         loadAttempts (loader_failed opts h j st) = loadAttempts st \<and>
         trace (loader_failed opts h j st) =
           trace st @ replicate (case h of Rehandle \<Rightarrow> 2 | Swallow \<Rightarrow> 1)
                        (now st, LazyError j (get_attempts st None + 1))"
proof -
  let ?s1 = "handleLoadError opts j st"
  have t1: "\<not> get_attempts st (attemptKey (doc st ! j)) < retryAttempts opts"
    using full k by simp
  have d1: "doc ?s1 ! j = (doc st ! j)\<lparr>classList := add_class (errorClass opts)
              (remove_class (loadingClass opts) (classList (doc st ! j)))\<rparr>"
    using handleLoadError_terminal(6)[OF t1 j c] .
  have k1: "attemptKey (doc ?s1 ! j) = None"
    using d1 k by simp
  have a1: "get_attempts ?s1 = get_attempts st"
    using handleLoadError_terminal(1)[OF t1] by (simp add: get_attempts_def fun_eq_iff)
  have t2: "\<not> get_attempts ?s1 (attemptKey (doc ?s1 ! j)) < retryAttempts opts"
    using full k1 a1 by simp
  have j1: "j < length (doc ?s1)"
    using j by simp
  show ?thesis
  proof (cases h)
    case Swallow
    then show ?thesis
      using handleLoadError_terminal(1-3)[OF t1] handleLoadError_terminal(5)[OF t1 j] k
      by (simp add: loader_failed_def rejected_def)
  next
    case Rehandle
    then show ?thesis
      using handleLoadError_terminal(1-3)[OF t1] handleLoadError_terminal(1-3)[OF t2]
        handleLoadError_terminal(5)[OF t2 j1] k k1 a1
      by (simp add: loader_failed_def rejected_def numeral_2_eq_2)
  qed
qed

lemma next_failure_reads:
  assumes r: "get_attempts st (attemptKey (doc st ! i)) < retryAttempts opts"
    and same: "attemptKey (doc st ! j) = attemptKey (doc st ! i)"
  shows "trace (handleLoadError opts j (handleLoadError opts i st)) =
           trace (handleLoadError opts i st) @
             [(now st,
               if get_attempts st (attemptKey (doc st ! i)) + 1 < retryAttempts opts
               then Scheduled (attemptKey (doc st ! i)) j
                      (retryDelay opts * (get_attempts st (attemptKey (doc st ! i)) + 2))
               else LazyError j (get_attempts st (attemptKey (doc st ! i)) + 2))]"
proof -
  let ?s = "handleLoadError opts i st"
  let ?k = "attemptKey (doc st ! i)"
  have d: "doc ?s = doc st"
    using r by (rule handleLoadError_retry(1))
  have g: "get_attempts ?s ?k = get_attempts st ?k + 1"
    using handleLoadError_retry(2)[OF r] by (simp add: get_attempts_def)
  have kj: "attemptKey (doc ?s ! j) = ?k"
    using d same by simp
  show ?thesis
  proof (cases "get_attempts st ?k + 1 < retryAttempts opts")
    case True
    then have "get_attempts ?s (attemptKey (doc ?s ! j)) < retryAttempts opts"
      using kj g by simp
    from handleLoadError_retry(4)[OF this] True show ?thesis
      using kj g by simp
  next
    case False
    then have "\<not> get_attempts ?s (attemptKey (doc ?s ! j)) < retryAttempts opts"
      using kj g by simp
    from handleLoadError_terminal(3)[OF this] False show ?thesis
      using kj g by simp
  qed
qed

text \<open>
  Claim C10 fails as stated: not every content element has the key \<^verbatim>\<open>undefined\<close>.
  The placeholder \<^verbatim>\<open><div data-lazy="/b.html" data-src="/b.html">\<close> is loaded by
  \<^verbatim>\<open>loadContent\<close> and has the key \<^verbatim>\<open>/b.html\<close>. After the failure of another
  placeholder has brought the count under \<^verbatim>\<open>undefined\<close> to \<^verbatim>\<open>retryAttempts\<close>, its
  own failure is not marked errored: two retries are scheduled under its own key.
\<close>

theorem content_key_counterexample:
  "content_element (keyed_placeholders ! 0) \<and> content_element (keyed_placeholders ! 1) \<and>
   attemptKey (keyed_placeholders ! 1) = Some ''/b.html'' \<and>
   trace keyed_run =
     [(0, Called 0), (0, Scheduled None 0 1000), (0, Scheduled None 0 2000),
      (0, Called 1), (0, Scheduled (Some ''/b.html'') 1 1000),
      (0, Scheduled (Some ''/b.html'') 1 2000)] \<and>
   get_attempts keyed_run None = retryAttempts default_options \<and>
   map classList (doc keyed_run) = [[''lazy-loading''], [''lazy-loading'']] \<and>
   timers keyed_run = [(1000, Retry 0), (2000, Retry 0), (1000, Retry 1), (2000, Retry 1)]"
proof -
  have a: "content_element (keyed_placeholders ! 0) \<and> content_element (keyed_placeholders ! 1) \<and>
      attemptKey (keyed_placeholders ! 1) = Some ''/b.html''"
    by code_simp
  have b: "trace keyed_run =
     [(0, Called 0), (0, Scheduled None 0 1000), (0, Scheduled None 0 2000),
      (0, Called 1), (0, Scheduled (Some ''/b.html'') 1 1000),
      (0, Scheduled (Some ''/b.html'') 1 2000)]"
    by code_simp
  have c: "get_attempts keyed_run None = retryAttempts default_options"
    by code_simp
  have d: "map classList (doc keyed_run) = [[''lazy-loading''], [''lazy-loading'']]"
    by code_simp
  have e: "timers keyed_run = [(1000, Retry 0), (2000, Retry 0), (1000, Retry 1), (2000, Retry 1)]"
    by code_simp
  from a b c d e show ?thesis
    by blast
qed

text \<open>
  Claim C10, amended. The counter of a failure is looked up under
  \<^verbatim>\<open>element.src || element.dataset.src || element.dataset.bg\<close>, read from the element's
  fields. A failure that is retried raises the count under that key by one and leaves the
  count under every other key; the next failure of any element with an equal key reads
  the raised count, for its delay or for its \<^verbatim>\<open>lazyError\<close>. The key is
  \<^verbatim>\<open>undefined\<close> exactly when the element has no non-empty \<^verbatim>\<open>src\<close>, no non-empty
  \<^verbatim>\<open>data-src\<close> and no \<^verbatim>\<open>data-bg\<close>. For a content element of that kind, once the
  count under \<^verbatim>\<open>undefined\<close> has reached \<^verbatim>\<open>retryAttempts\<close>, a failed fetch marks it
  errored at once: no timer is set, no counter changes, and only \<^verbatim>\<open>lazyError\<close> is
  dispatched.
\<close>

theorem shared_attempt_counter:
  assumes "i < length (doc st)" and "j < length (doc st)"
  shows
   "let ei = doc st ! i; ej = doc st ! j;
        ki = (if truthy (src ei) then src ei
              else if truthy (data_src ei) then data_src ei else data_bg ei);
        kj = (if truthy (src ej) then src ej
              else if truthy (data_src ej) then data_src ej else data_bg ej);
        c = get_attempts st ki;
        st1 = handleLoadError opts i st
    in attemptKey ei = ki \<and> attemptKey ej = kj \<and>
       (c < retryAttempts opts \<longrightarrow>
          loadAttempts st1 = (loadAttempts st)(ki \<mapsto> c + 1) \<and>
          (kj = ki \<longrightarrow>
             trace (handleLoadError opts j st1) =
               trace st1 @
                 [(now st, if c + 1 < retryAttempts opts
                           then Scheduled ki j (retryDelay opts * (c + 2))
                           else LazyError j (c + 2))]) \<and>
          (kj \<noteq> ki \<longrightarrow> get_attempts st1 kj = get_attempts st kj)) \<and>
       (attemptKey ej = None \<longleftrightarrow>
          \<not> truthy (src ej) \<and> \<not> truthy (data_src ej) \<and> data_bg ej = None) \<and>
       (content_element ej \<and> \<not> truthy (src ej) \<and> \<not> truthy (data_src ej) \<and>
        data_bg ej = None \<and> retryAttempts opts \<le> get_attempts st None \<longrightarrow>
          errorClass opts \<in>
            set (classList (doc (settle opts (Request j KContent url h) Failure st) ! j)) \<and>
          timers (settle opts (Request j KContent url h) Failure st) = timers st \<and>
          loadAttempts (settle opts (Request j KContent url h) Failure st) = loadAttempts st \<and>
          trace (settle opts (Request j KContent url h) Failure st) =
            trace st @ replicate (case h of Rehandle \<Rightarrow> 2 | Swallow \<Rightarrow> 1)
                         (now st, LazyError j (get_attempts st None + 1)))"
proof -
  let ?ei = "doc st ! i"
  let ?ej = "doc st ! j"
  let ?ki = "if truthy (src ?ei) then src ?ei
             else if truthy (data_src ?ei) then data_src ?ei else data_bg ?ei"
  let ?kj = "if truthy (src ?ej) then src ?ej
             else if truthy (data_src ?ej) then data_src ?ej else data_bg ?ej"
  let ?c = "get_attempts st ?ki"
  let ?st1 = "handleLoadError opts i st"
  have ki: "attemptKey ?ei = ?ki"
    by (simp add: attemptKey_def js_or_def)
  have kj: "attemptKey ?ej = ?kj"
    by (simp add: attemptKey_def js_or_def)
  have retry: "?c < retryAttempts opts \<longrightarrow>
      loadAttempts ?st1 = (loadAttempts st)(?ki \<mapsto> ?c + 1) \<and>
      (?kj = ?ki \<longrightarrow>
         trace (handleLoadError opts j ?st1) =
           trace ?st1 @
             [(now st, if ?c + 1 < retryAttempts opts
                       then Scheduled ?ki j (retryDelay opts * (?c + 2))
                       else LazyError j (?c + 2))]) \<and>
      (?kj \<noteq> ?ki \<longrightarrow> get_attempts ?st1 ?kj = get_attempts st ?kj)"
  proof
    assume "?c < retryAttempts opts"
    then have r: "get_attempts st (attemptKey ?ei) < retryAttempts opts"
      unfolding ki .
    have la: "loadAttempts ?st1 = (loadAttempts st)(?ki \<mapsto> ?c + 1)"
      using handleLoadError_retry(2)[OF r] unfolding ki .
    have sh: "trace (handleLoadError opts j ?st1) =
           trace ?st1 @
             [(now st, if ?c + 1 < retryAttempts opts
                       then Scheduled ?ki j (retryDelay opts * (?c + 2))
                       else LazyError j (?c + 2))]" if "?kj = ?ki"
    proof -
      have "attemptKey ?ej = attemptKey ?ei"
        unfolding ki kj using that .
      from next_failure_reads[OF r this] show ?thesis
        unfolding ki .
    qed
    have other: "get_attempts ?st1 ?kj = get_attempts st ?kj" if "?kj \<noteq> ?ki"
      using that unfolding get_attempts_def la by simp
    show "loadAttempts ?st1 = (loadAttempts st)(?ki \<mapsto> ?c + 1) \<and>
      (?kj = ?ki \<longrightarrow>
         trace (handleLoadError opts j ?st1) =
           trace ?st1 @
             [(now st, if ?c + 1 < retryAttempts opts
                       then Scheduled ?ki j (retryDelay opts * (?c + 2))
                       else LazyError j (?c + 2))]) \<and>
      (?kj \<noteq> ?ki \<longrightarrow> get_attempts ?st1 ?kj = get_attempts st ?kj)"
      using la sh other by blast
  qed
  have undef: "attemptKey ?ej = None \<longleftrightarrow>
      \<not> truthy (src ?ej) \<and> \<not> truthy (data_src ?ej) \<and> data_bg ?ej = None"
    by (rule content_key)
  have fin: "content_element ?ej \<and> \<not> truthy (src ?ej) \<and> \<not> truthy (data_src ?ej) \<and>
        data_bg ?ej = None \<and> retryAttempts opts \<le> get_attempts st None \<longrightarrow>
          errorClass opts \<in>
            set (classList (doc (settle opts (Request j KContent url h) Failure st) ! j)) \<and>
          timers (settle opts (Request j KContent url h) Failure st) = timers st \<and>
          loadAttempts (settle opts (Request j KContent url h) Failure st) = loadAttempts st \<and>
          trace (settle opts (Request j KContent url h) Failure st) =
            trace st @ replicate (case h of Rehandle \<Rightarrow> 2 | Swallow \<Rightarrow> 1)
                         (now st, LazyError j (get_attempts st None + 1))"
  proof
    assume a: "content_element ?ej \<and> \<not> truthy (src ?ej) \<and> \<not> truthy (data_src ?ej) \<and>
        data_bg ?ej = None \<and> retryAttempts opts \<le> get_attempts st None"
    have s: "settle opts (Request j KContent url h) Failure st = loader_failed opts h j st"
      by (simp add: settle_def)
    have t: "tagName ?ej \<noteq> ''IMG''"
      using a by (simp add: content_element_def)
    have k: "attemptKey ?ej = None"
      using a content_key[of ?ej] by simp
    from a have full: "retryAttempts opts \<le> get_attempts st None"
      by simp
    show "errorClass opts \<in>
            set (classList (doc (settle opts (Request j KContent url h) Failure st) ! j)) \<and>
          timers (settle opts (Request j KContent url h) Failure st) = timers st \<and>
          loadAttempts (settle opts (Request j KContent url h) Failure st) = loadAttempts st \<and>
          trace (settle opts (Request j KContent url h) Failure st) =
            trace st @ replicate (case h of Rehandle \<Rightarrow> 2 | Swallow \<Rightarrow> 1)
                         (now st, LazyError j (get_attempts st None + 1))"
      unfolding s using content_failure_terminal[OF assms(2) t k full, of h] .
  qed
  show ?thesis
    unfolding Let_def using ki kj retry undef fin by blast
qed

theorem shared_attempt_counter_witness:
  "attemptKey (doc two_placeholders ! 0) = None \<and> attemptKey (doc two_placeholders ! 1) = None \<and>
   get_attempts two_placeholders None = 1 \<and>
   loadAttempts (handleLoadError default_options 0 two_placeholders) = [None \<mapsto> 2] \<and>
   trace (handleLoadError default_options 1 (handleLoadError default_options 0 two_placeholders)) =
     trace (handleLoadError default_options 0 two_placeholders) @ [(0, LazyError 1 3)] \<and>
   content_element (doc (handleLoadError default_options 0 two_placeholders) ! 1) \<and>
   errorClass default_options \<in>
     set (classList (doc (settle default_options (Request 1 KContent ''/b.html'' Rehandle) Failure
            (handleLoadError default_options 0 two_placeholders)) ! 1)) \<and>
   timers (settle default_options (Request 1 KContent ''/b.html'' Rehandle) Failure
            (handleLoadError default_options 0 two_placeholders)) =
     timers (handleLoadError default_options 0 two_placeholders) \<and>
   attemptKey (doc (fresh keyed_placeholders) ! 1) = Some ''/b.html'' \<and>
   get_attempts (handleLoadError default_options 0 (fresh keyed_placeholders)) (Some ''/b.html'') = 0"
proof -
  let ?st = two_placeholders
  let ?s2 = "handleLoadError default_options 0 two_placeholders"
  let ?k = "fresh keyed_placeholders"
  have len: "0 < length (doc ?st)" "1 < length (doc ?st)"
    by (simp_all add: two_placeholders_def fresh_def)
  have len2: "0 < length (doc ?s2)" "1 < length (doc ?s2)"
    using len by simp_all
  have lenk: "0 < length (doc ?k)" "1 < length (doc ?k)"
    by (simp_all add: keyed_placeholders_def fresh_def)
  have f: "doc ?st ! 0 = placeholder_div ''/a.html''"
    "doc ?st ! Suc 0 = placeholder_div ''/b.html''"
    "loadAttempts ?st = [None \<mapsto> 1]" "now ?st = 0"
    by (simp_all add: two_placeholders_def fresh_def)
  have p: "src (placeholder_div u) = None" "data_src (placeholder_div u) = None"
    "data_bg (placeholder_div u) = None" "tagName (placeholder_div u) = ''DIV''"
    "data_lazy (placeholder_div u) = Some u" for u
    by (simp_all add: placeholder_div_def blank_def)
  have nt: "\<not> truthy None"
    by (simp add: truthy_def)
  have a: "get_attempts ?st None = 1" "retryAttempts default_options = 2"
    by (simp_all add: f get_attempts_def default_options_def)
  note t1 = shared_attempt_counter[OF len(1) len(2), of default_options "''/b.html''" Rehandle]
  have k: "attemptKey (doc ?st ! 0) = None" "attemptKey (doc ?st ! 1) = None"
    using t1 by (simp_all add: Let_def f p nt)
  have la: "loadAttempts ?s2 = [None \<mapsto> 2]"
    using t1 a by (simp add: Let_def f p nt eval_nat_numeral)
  have tr: "trace (handleLoadError default_options 1 ?s2) = trace ?s2 @ [(0, LazyError 1 3)]"
    using t1 a by (simp add: Let_def f p nt eval_nat_numeral)
  have d2: "doc ?s2 = doc ?st"
    using a k by (simp add: handleLoadError_retry)
  have two: "get_attempts ?s2 None = 2"
    using la by (simp add: get_attempts_def)
  have c2: "content_element (doc ?s2 ! 1)"
    by (simp add: d2 f p content_element_def truthy_def)
  note t2 = shared_attempt_counter[OF len2(1) len2(2), of default_options "''/b.html''" Rehandle]
  have fin: "errorClass default_options \<in>
     set (classList (doc (settle default_options (Request 1 KContent ''/b.html'' Rehandle) Failure
            ?s2) ! 1)) \<and>
     timers (settle default_options (Request 1 KContent ''/b.html'' Rehandle) Failure ?s2) =
       timers ?s2"
    using t2 c2 two a by (simp add: Let_def d2 f p nt)
  note t3 = shared_attempt_counter[OF lenk(1) lenk(2), of default_options "''/b.html''" Rehandle]
  have fk: "doc ?k ! 0 = placeholder_div ''/a.html''"
    "doc ?k ! Suc 0 = (placeholder_div ''/b.html'')\<lparr>data_src := Some ''/b.html''\<rparr>"
    "loadAttempts ?k = Map.empty"
    by (simp_all add: keyed_placeholders_def fresh_def)
  have other: "attemptKey (doc ?k ! 1) = Some ''/b.html'' \<and>
      get_attempts (handleLoadError default_options 0 ?k) (Some ''/b.html'') = 0"
    using t3 a(2) by (simp add: Let_def fk p truthy_def get_attempts_def)
  from k a(1) la tr c2 fin other show ?thesis
    by blast
qed

subsection \<open>Elements without a payload\<close>

text \<open>
  Claim C2 fails as stated: an image without \<^verbatim>\<open>data-src\<close> and \<^verbatim>\<open>src\<close> that scrolls
  into view on a new pipeline is not marked errored; a retry is scheduled after 1000 ms.
\<close>

theorem missing_payload_counterexample:
  "images no_payload_image = [0] \<and>
   \<not> truthy (data_src (doc no_payload_image ! 0)) \<and> \<not> truthy (src (doc no_payload_image ! 0)) \<and>
   errorClass default_options \<notin> set (classList (doc no_payload_image ! 0)) \<and>
   pending no_payload_image = [] \<and>
   timers no_payload_image = [(1000, Retry 0)] \<and>
   trace no_payload_image = [(0, Called 0), (0, Scheduled None 0 1000)]"
  by code_simp

text \<open>
  Claim C2, amended. For an image with neither \<^verbatim>\<open>data-src\<close> nor \<^verbatim>\<open>src\<close>,
  \<^verbatim>\<open>loadElement\<close> starts no request and hands the failure to \<^verbatim>\<open>handleLoadError\<close>
  once: while the count under its key is below \<^verbatim>\<open>retryAttempts\<close> a retry is
  scheduled and the element is left as it is; otherwise it is marked errored and no timer
  is set. On an element that is no image and has neither \<^verbatim>\<open>data-bg\<close> nor
  \<^verbatim>\<open>data-lazy\<close>, \<^verbatim>\<open>loadElement\<close> does nothing. \<^verbatim>\<open>loadContent\<close> without a URL marks
  the element loaded. Called from \<^verbatim>\<open>loadAllImmediately\<close>, \<^verbatim>\<open>loadImage\<close> and
  \<^verbatim>\<open>loadBackground\<close> without a URL change nothing.
\<close>

theorem missing_payload:
  assumes "i < length (doc st)"
  shows
   "(tagName (doc st ! i) = ''IMG'' \<and> \<not> truthy (data_src (doc st ! i)) \<and>
     \<not> truthy (src (doc st ! i)) \<longrightarrow>
       loadElement opts i st = handleLoadError opts i (emit (Called i) st) \<and>
       pending (loadElement opts i st) = pending st \<and>
       attemptKey (doc st ! i) = data_bg (doc st ! i) \<and>
       (if get_attempts st (data_bg (doc st ! i)) < retryAttempts opts
        then doc (loadElement opts i st) = doc st \<and>
             timers (loadElement opts i st) =
               timers st @ [(now st + retryDelay opts *
                  (get_attempts st (data_bg (doc st ! i)) + 1), Retry i)]
        else errorClass opts \<in> set (classList (doc (loadElement opts i st) ! i)) \<and>
             timers (loadElement opts i st) = timers st)) \<and>
    (tagName (doc st ! i) \<noteq> ''IMG'' \<and> \<not> truthy (data_bg (doc st ! i)) \<and>
     \<not> truthy (data_lazy (doc st ! i)) \<longrightarrow>
       loadElement opts i st = emit (Called i) st) \<and>
    (\<not> truthy (data_lazy (doc st ! i)) \<longrightarrow>
       loadContent opts h i st = onElementLoaded opts i st \<and>
       loadedClass opts \<in> set (classList (doc (loadContent opts h i st) ! i))) \<and>
    (\<not> truthy (data_src (doc st ! i)) \<and> \<not> truthy (src (doc st ! i)) \<longrightarrow>
       loadImage opts Swallow i st = st) \<and>
    (\<not> truthy (data_bg (doc st ! i)) \<longrightarrow> loadBackground opts Swallow i st = st)"
proof (intro conjI impI)
  assume a: "tagName (doc st ! i) = ''IMG'' \<and> \<not> truthy (data_src (doc st ! i)) \<and>
     \<not> truthy (src (doc st ! i))"
  let ?s = "emit (Called i) st"
  show le: "loadElement opts i st = handleLoadError opts i ?s"
    using a by (simp add: loadElement_def loadImage_def Let_def js_or_def rejected_def)
  show "pending (loadElement opts i st) = pending st"
    unfolding le by simp
  show k: "attemptKey (doc st ! i) = data_bg (doc st ! i)"
    using a by (simp add: attemptKey_def js_or_def)
  show "if get_attempts st (data_bg (doc st ! i)) < retryAttempts opts
        then doc (loadElement opts i st) = doc st \<and>
             timers (loadElement opts i st) =
               timers st @ [(now st + retryDelay opts *
                  (get_attempts st (data_bg (doc st ! i)) + 1), Retry i)]
        else errorClass opts \<in> set (classList (doc (loadElement opts i st) ! i)) \<and>
             timers (loadElement opts i st) = timers st"
  proof (cases "get_attempts st (data_bg (doc st ! i)) < retryAttempts opts")
    case True
    then have "get_attempts ?s (attemptKey (doc ?s ! i)) < retryAttempts opts"
      using k by simp
    from handleLoadError_retry(1,3)[OF this] True show ?thesis
      unfolding le using k by simp
  next
    case False
    then have f: "\<not> get_attempts ?s (attemptKey (doc ?s ! i)) < retryAttempts opts"
      using k by simp
    have "i < length (doc ?s)" using assms by simp
    from handleLoadError_terminal(2)[OF f] handleLoadError_terminal(5)[OF f this] False
    show ?thesis
      unfolding le by simp
  qed
next
  assume "tagName (doc st ! i) \<noteq> ''IMG'' \<and> \<not> truthy (data_bg (doc st ! i)) \<and>
     \<not> truthy (data_lazy (doc st ! i))"
  then show "loadElement opts i st = emit (Called i) st"
    by (simp add: loadElement_def Let_def)
next
  assume a: "\<not> truthy (data_lazy (doc st ! i))"
  then show c: "loadContent opts h i st = onElementLoaded opts i st"
    by (simp add: loadContent_def Let_def)
  show "loadedClass opts \<in> set (classList (doc (loadContent opts h i st) ! i))"
    unfolding c using assms
    by (simp add: onElementLoaded_def Let_def doc_upd_elem_nth)
next
  assume "\<not> truthy (data_src (doc st ! i)) \<and> \<not> truthy (src (doc st ! i))"
  then show "loadImage opts Swallow i st = st"
    by (simp add: loadImage_def Let_def js_or_def rejected_def)
next
  assume "\<not> truthy (data_bg (doc st ! i))"
  then show "loadBackground opts Swallow i st = st"
    by (simp add: loadBackground_def Let_def rejected_def)
qed

theorem missing_payload_witness:
  "tagName (doc no_payload_doc ! 0) = ''IMG'' \<and> \<not> truthy (data_src (doc no_payload_doc ! 0)) \<and>
   \<not> truthy (src (doc no_payload_doc ! 0)) \<and>
   get_attempts no_payload_doc (data_bg (doc no_payload_doc ! 0)) < retryAttempts default_options \<and>
   doc (loadElement default_options 0 no_payload_doc) = doc no_payload_doc \<and>
   timers (loadElement default_options 0 no_payload_doc) = [(1000, Retry 0)] \<and>
   loadImage default_options Swallow 0 no_payload_doc = no_payload_doc \<and>
   tagName (doc no_payload_doc ! 1) \<noteq> ''IMG'' \<and> \<not> truthy (data_bg (doc no_payload_doc ! 1)) \<and>
   \<not> truthy (data_lazy (doc no_payload_doc ! 1)) \<and>
   loadElement default_options 1 no_payload_doc = emit (Called 1) no_payload_doc \<and>
   loadedClass default_options \<in>
     set (classList (doc (loadContent default_options Swallow 1 no_payload_doc) ! 1)) \<and>
   loadBackground default_options Swallow 1 no_payload_doc = no_payload_doc"
proof -
  have len: "0 < length (doc no_payload_doc)" "1 < length (doc no_payload_doc)"
    by (simp_all add: no_payload_doc_def fresh_def)
  have e0: "tagName (doc no_payload_doc ! 0) = ''IMG'' \<and>
      \<not> truthy (data_src (doc no_payload_doc ! 0)) \<and> \<not> truthy (src (doc no_payload_doc ! 0))"
    by (simp add: no_payload_doc_def fresh_def lazy_img_def blank_def truthy_def)
  have e1: "tagName (doc no_payload_doc ! 1) \<noteq> ''IMG'' \<and>
      \<not> truthy (data_bg (doc no_payload_doc ! 1)) \<and> \<not> truthy (data_lazy (doc no_payload_doc ! 1))"
    by (simp add: no_payload_doc_def fresh_def lazy_img_def blank_def truthy_def)
  have a: "get_attempts no_payload_doc (data_bg (doc no_payload_doc ! 0)) = 0"
    "retryAttempts default_options = 2" "retryDelay default_options = 1000"
    "timers no_payload_doc = []" "now no_payload_doc = 0"
    by (simp_all add: no_payload_doc_def fresh_def get_attempts_def default_options_def)
  note m0 = missing_payload[OF len(1), of default_options Swallow]
  note m1 = missing_payload[OF len(2), of default_options Swallow]
  from m0 e0 have "if get_attempts no_payload_doc (data_bg (doc no_payload_doc ! 0))
                     < retryAttempts default_options
      then doc (loadElement default_options 0 no_payload_doc) = doc no_payload_doc \<and>
           timers (loadElement default_options 0 no_payload_doc) =
             timers no_payload_doc @ [(now no_payload_doc + retryDelay default_options *
               (get_attempts no_payload_doc (data_bg (doc no_payload_doc ! 0)) + 1), Retry 0)]
      else errorClass default_options
             \<in> set (classList (doc (loadElement default_options 0 no_payload_doc) ! 0)) \<and>
           timers (loadElement default_options 0 no_payload_doc) = timers no_payload_doc"
    by blast
  then have r0: "doc (loadElement default_options 0 no_payload_doc) = doc no_payload_doc \<and>
      timers (loadElement default_options 0 no_payload_doc) = [(1000, Retry 0)]"
    using a by simp
  from m0 e0 have r1: "loadImage default_options Swallow 0 no_payload_doc = no_payload_doc"
    by blast
  from m1 e1 have r2: "loadElement default_options 1 no_payload_doc = emit (Called 1) no_payload_doc"
    and r3: "loadedClass default_options \<in>
      set (classList (doc (loadContent default_options Swallow 1 no_payload_doc) ! 1))"
    and r4: "loadBackground default_options Swallow 1 no_payload_doc = no_payload_doc"
    by blast+
  show ?thesis
    using e0 e1 a(1,2) r0 r1 r2 r3 r4 by simp
qed

subsection \<open>\<^verbatim>\<open>refresh()\<close> followed by \<^verbatim>\<open>destroy()\<close>\<close>

lemma abandoned_basic [simp]:
  "abandoned (upd_elem i f st) = abandoned st"
  "abandoned (observe i st) = abandoned st"
  "abandoned (unobserve i st) = abandoned st"
  "abandoned (emit a st) = abandoned st"
  "abandoned (setTimeout t d st) = abandoned st"
  "abandoned (collectElements opts st) = abandoned st"
  "abandoned (disconnect st) = abandoned st"
  "abandoned (tick n st) = abandoned st"
  by (simp_all add: upd_elem_def observe_def unobserve_def emit_def setTimeout_def
      collectElements_def disconnect_def tick_def)

lemma abandoned_handlers [simp]:
  "abandoned (handleLoadError opts i st) = abandoned st"
  "abandoned (onElementLoaded opts i st) = abandoned st"
  "abandoned (rejected opts h i st) = abandoned st"
  by (simp_all add: handleLoadError_def onElementLoaded_def rejected_def Let_def
      split: handler.splits)

lemma abandoned_loaders [simp]:
  "abandoned (loadImage opts h i st) = abandoned st"
  "abandoned (loadBackground opts h i st) = abandoned st"
  "abandoned (loadContent opts h i st) = abandoned st"
  "abandoned (loader_failed opts h i st) = abandoned st"
  "abandoned (imageLoader_onload opts i st) = abandoned st"
  "abandoned (background_onload opts i u st) = abandoned st"
  by (simp_all add: loadImage_def loadBackground_def loadContent_def loader_failed_def
      imageLoader_onload_def background_onload_def Let_def)

lemma abandoned_loadElement [simp]: "abandoned (loadElement opts i st) = abandoned st"
  by (simp add: loadElement_def Let_def)

lemma abandoned_observe_each:
  "abandoned (state_of (observe_each opts xs st)) = abandoned st"
  by (induction xs arbitrary: st) (simp_all add: state_of_def)

lemma abandoned_process_each:
  "abandoned (state_of (process_each opts xs st)) = abandoned st"
  by (induction xs arbitrary: st) (simp_all add: state_of_def)

lemma abandoned_content_loaded:
  "abandoned (content_loaded opts h i html st) = abandoned st"
proof -
  let ?n = "length (doc st)"
  let ?s1 = "upd_elem i (\<lambda>e. e\<lparr>inner := [?n..<?n + length html], data_lazy := None\<rparr>)
               (st\<lparr>doc := doc st @ html\<rparr>)"
  have a: "abandoned (state_of (processNewContent opts i ?s1)) = abandoned st"
    by (simp add: processNewContent_def Let_def abandoned_process_each)
  show ?thesis
  proof (cases "processNewContent opts i ?s1")
    case (Inl p)
    obtain err st2 where p: "p = (err, st2)" by (cases p)
    then show ?thesis using Inl a by (simp add: content_loaded_def Let_def state_of_def)
  next
    case (Inr st2)
    then show ?thesis using a by (simp add: content_loaded_def Let_def state_of_def)
  qed
qed

lemma abandoned_complete: "abandoned (complete opts n out st) = abandoned st"
  by (simp add: complete_def settle_def abandoned_content_loaded
      split: request.splits outcome.splits kind.splits)

lemma abandoned_handleIntersection:
  "abandoned (state_of (handleIntersection opts es st)) = abandoned st"
proof (induction es arbitrary: st)
  case Nil
  show ?case by (simp add: state_of_def)
next
  case (Cons e es)
  obtain t b where e: "e = (t, b)" by (cases e)
  show ?case using e Cons.IH by (simp add: Let_def state_of_def)
qed

lemma abandoned_folds:
  "abandoned (fold (loadImage opts h) xs st) = abandoned st"
  "abandoned (fold (loadBackground opts h) xs st) = abandoned st"
  "abandoned (fold (loadContent opts h) xs st) = abandoned st"
  "abandoned (fold (\<lambda>i s. loadElement opts i (unobserve i s)) xs st) = abandoned st"
  "abandoned (fold (\<lambda>i. upd_elem i f) xs st) = abandoned st"
  by (induction xs arbitrary: st) simp_all

lemma abandoned_step:
  assumes "case ev of EvInit b \<Rightarrow> b \<longrightarrow> observer st = None | _ \<Rightarrow> True"
  shows "abandoned (step opts st ev) = abandoned st"
proof (cases ev)
  case (EvInit b)
  show ?thesis
  proof (cases b)
    case True
    then have "observer st = None" using assms EvInit by simp
    then show ?thesis
      using EvInit True
      by (simp add: init_def observeElements_def abandoned_observe_each setupObserver_def)
  next
    case False
    then show ?thesis
      using EvInit by (simp add: init_def state_of_def loadAllImmediately_def Let_def abandoned_folds)
  qed
next
  case (EvIntersect es)
  then show ?thesis by (simp add: abandoned_handleIntersection)
next
  case (EvComplete n out)
  then show ?thesis by (simp add: abandoned_complete)
next
  case (EvFire n)
  then show ?thesis by (simp add: fire_def run_task_def split: task.splits)
next
  case EvFrame
  then show ?thesis by (simp add: animationFrame_def abandoned_folds)
next
  case (EvTick d)
  then show ?thesis by simp
next
  case EvRefresh
  then show ?thesis by (simp add: refresh_def observeElements_def abandoned_observe_each)
next
  case (EvLoadNow i)
  then show ?thesis by (simp add: loadNow_def)
next
  case EvLoadAll
  then show ?thesis by (simp add: loadAll_def Let_def abandoned_folds)
next
  case EvDestroy
  then show ?thesis by (simp add: destroy_def state_of_def Let_def)
qed

lemma abandoned_run:
  "single_observer opts st evs \<Longrightarrow> abandoned (run opts st evs) = abandoned st"
proof (induction evs arbitrary: st)
  case Nil
  show ?case by (simp add: run_def)
next
  case (Cons ev evs)
  have "abandoned (step opts st ev) = abandoned st"
    using Cons.prems by (intro abandoned_step) simp
  moreover have "abandoned (run opts (step opts st ev) evs) = abandoned (step opts st ev)"
    using Cons.prems by (intro Cons.IH) simp
  ultimately show ?case by (simp add: run_def)
qed

lemma destroy_clean:
  assumes "css_ident (loadingClass opts)" "css_ident (loadedClass opts)"
    "css_ident (errorClass opts)"
  shows "\<exists>st'. destroy opts st = Inr st' \<and> observer st' = None \<and> registered st' = {} \<and>
     abandoned st' = abandoned st \<and>
     (\<forall>e \<in> set (doc st'). \<not> has_marker opts e) \<and> loadAttempts st' = Map.empty \<and>
     images st' = [] \<and> backgrounds st' = [] \<and> content st' = []"
  using assms by (auto simp: destroy_def Let_def registered_def has_marker_def remove_class_def)

text \<open>
  Claim C8 fails as stated. After \<^verbatim>\<open>init()\<close> has been called twice, \<^verbatim>\<open>refresh()\<close>
  and \<^verbatim>\<open>destroy()\<close> disconnect the second observer only: the first one still has both
  elements registered. And with \<^verbatim>\<open>loadedClass: '2x-loaded'\<close> \<^verbatim>\<open>destroy()\<close> throws a
  \<^verbatim>\<open>SyntaxError\<close>: the elements keep their marker classes, the image roster and the
  attempt counter stay.
\<close>

theorem refresh_destroy_counterexample:
  "abandoned initialised_twice = [[0, 1]] \<and> registrations initialised_twice = {0, 1} \<and>
   destroy retina_options retina_refreshed =
     Inl (SyntaxError, retina_refreshed\<lparr>observer := None\<rparr>) \<and>
   map classList (doc retina_refreshed) = [[''lazy-loading''], [''2x-loaded'']] \<and>
   has_marker retina_options (doc retina_refreshed ! 0) \<and>
   has_marker retina_options (doc retina_refreshed ! 1) \<and>
   images retina_refreshed = [0] \<and>
   get_attempts retina_refreshed (Some ''a.jpg'') = 2"
proof -
  have a: "abandoned initialised_twice = [[0, 1]]"
    by code_simp
  have o: "observer initialised_twice = None"
    by code_simp
  have r: "registrations initialised_twice = {0, 1}"
    by (auto simp: registrations_def registered_def a o)
  have n: "\<not> css_ident (loadedClass retina_options)"
    by code_simp
  have d: "destroy retina_options retina_refreshed =
      Inl (SyntaxError, retina_refreshed\<lparr>observer := None\<rparr>)"
    using n by (simp add: destroy_def Let_def)
  have c: "map classList (doc retina_refreshed) = [[''lazy-loading''], [''2x-loaded'']]"
    by code_simp
  have m: "has_marker retina_options (doc retina_refreshed ! 0)"
    "has_marker retina_options (doc retina_refreshed ! 1)"
    by code_simp+
  have i: "images retina_refreshed = [0]"
    by code_simp
  have g: "get_attempts retina_refreshed (Some ''a.jpg'') = 2"
    by code_simp
  from a r d c m i g show ?thesis
    by blast
qed

text \<open>
  Claim C8, amended. When the three marker class names are CSS identifiers and
  \<^verbatim>\<open>init()\<close> has never been called on a pipeline that had an observer, then after any
  execution that ends with \<^verbatim>\<open>refresh()\<close> followed by \<^verbatim>\<open>destroy()\<close>, whether
  \<^verbatim>\<open>refresh()\<close> returned or threw, \<^verbatim>\<open>destroy()\<close> returns, the observer is gone and
  nothing is registered with any observer, no element of the document carries the
  loading, loaded or error class, the attempt counters are cleared and the three rosters
  are empty.
\<close>

theorem refresh_destroy_clean:
  assumes "css_ident (loadingClass opts)" and "css_ident (loadedClass opts)"
    and "css_ident (errorClass opts)"
    and "abandoned st = []" and "single_observer opts st evs"
  shows "destroy opts (run opts st (evs @ [EvRefresh])) =
           Inr (run opts st (evs @ [EvRefresh, EvDestroy])) \<and>
         observer (run opts st (evs @ [EvRefresh, EvDestroy])) = None \<and>
         registrations (run opts st (evs @ [EvRefresh, EvDestroy])) = {} \<and>
         (\<forall>e \<in> set (doc (run opts st (evs @ [EvRefresh, EvDestroy]))). \<not> has_marker opts e) \<and>
         loadAttempts (run opts st (evs @ [EvRefresh, EvDestroy])) = Map.empty \<and>
         images (run opts st (evs @ [EvRefresh, EvDestroy])) = [] \<and>
         backgrounds (run opts st (evs @ [EvRefresh, EvDestroy])) = [] \<and>
         content (run opts st (evs @ [EvRefresh, EvDestroy])) = []"
proof -
  let ?r = "run opts st (evs @ [EvRefresh])"
  let ?f = "run opts st (evs @ [EvRefresh, EvDestroy])"
  have f: "?f = state_of (destroy opts ?r)"
    by (simp add: run_def)
  have "abandoned (run opts st evs) = []"
    using abandoned_run[OF assms(5)] assms(4) by simp
  then have ar: "abandoned ?r = []"
    by (simp add: run_def refresh_def observeElements_def abandoned_observe_each)
  from destroy_clean[OF assms(1-3), of ?r] obtain st' where
    d: "destroy opts ?r = Inr st'" and c: "observer st' = None" "registered st' = {}"
      "abandoned st' = abandoned ?r" "\<forall>e \<in> set (doc st'). \<not> has_marker opts e"
      "loadAttempts st' = Map.empty" "images st' = []" "backgrounds st' = []" "content st' = []"
    by blast
  have e: "?f = st'"
    using f d by (simp add: state_of_def)
  show ?thesis
    unfolding e using d c ar by (simp add: registrations_def)
qed

theorem refresh_destroy_clean_witness:
  "css_ident (loadingClass default_options) \<and> css_ident (loadedClass default_options) \<and>
   css_ident (errorClass default_options) \<and> abandoned (fresh gallery) = [] \<and>
   single_observer default_options (fresh gallery) gallery_events \<and>
   map classList (doc (run default_options (fresh gallery) gallery_events)) =
     [[''lazy-loading''], [''lazy-loaded'']] \<and>
   get_attempts (run default_options (fresh gallery) gallery_events) (Some ''a.jpg'') = 2 \<and>
   \<not> has_marker default_options
       (doc (run default_options (fresh gallery) (gallery_events @ [EvRefresh, EvDestroy])) ! 0) \<and>
   \<not> has_marker default_options
       (doc (run default_options (fresh gallery) (gallery_events @ [EvRefresh, EvDestroy])) ! 1) \<and>
   loadAttempts (run default_options (fresh gallery) (gallery_events @ [EvRefresh, EvDestroy])) =
     Map.empty \<and>
   registrations (run default_options (fresh gallery) (gallery_events @ [EvRefresh, EvDestroy])) =
     {}"
proof -
  let ?s = "run default_options (fresh gallery) (gallery_events @ [EvRefresh, EvDestroy])"
  have names: "css_ident (loadingClass default_options)"
    "css_ident (loadedClass default_options)" "css_ident (errorClass default_options)"
    by code_simp+
  have ab: "abandoned (fresh gallery) = []"
    by (simp add: fresh_def)
  have so: "single_observer default_options (fresh gallery) gallery_events"
    by code_simp
  have before: "map classList (doc (run default_options (fresh gallery) gallery_events)) =
      [[''lazy-loading''], [''lazy-loaded'']]"
    "get_attempts (run default_options (fresh gallery) gallery_events) (Some ''a.jpg'') = 2"
    by code_simp+
  have len: "length (doc ?s) = 2"
    by code_simp
  then have mem: "doc ?s ! 0 \<in> set (doc ?s)" "doc ?s ! 1 \<in> set (doc ?s)"
    by simp_all
  from refresh_destroy_clean[OF names ab so] mem names ab so before show ?thesis
    by simp
qed

subsection \<open>\<^verbatim>\<open>refresh()\<close> and the attempt counters\<close>

text \<open>
  Claim C9. \<^verbatim>\<open>refresh()\<close> leaves every attempt counter as it was. It recomputes the
  three rosters from the document, and on a pipeline with an observer it returns with
  exactly the collected elements registered. Without an observer it registers nothing,
  and throws exactly when it has collected an element.
\<close>

theorem refresh_keeps_attempts:
  "loadAttempts (state_of (refresh opts st)) = loadAttempts st \<and>
   images (state_of (refresh opts st)) =
     filter (\<lambda>i. keep_image opts (doc st ! i)) (querySelectorAll matches_image (doc st)) \<and>
   backgrounds (state_of (refresh opts st)) = querySelectorAll matches_background (doc st) \<and>
   content (state_of (refresh opts st)) = querySelectorAll matches_content (doc st) \<and>
   registered (state_of (refresh opts st)) =
     (if observer st = None then {}
      else set (images (state_of (refresh opts st)) @ backgrounds (state_of (refresh opts st)) @
                content (state_of (refresh opts st)))) \<and>
   isl (refresh opts st) =
     (observer st = None \<and>
      images (state_of (refresh opts st)) @ backgrounds (state_of (refresh opts st)) @
        content (state_of (refresh opts st)) \<noteq> [])"
proof -
  let ?c = "collectElements opts (disconnect st)"
  let ?all = "images ?c @ backgrounds ?c @ content ?c"
  have r: "refresh opts st = observe_each opts ?all ?c"
    by (simp add: refresh_def observeElements_def)
  have frame: "loadAttempts (state_of (refresh opts st)) = loadAttempts st"
    "images (state_of (refresh opts st)) = images ?c"
    "backgrounds (state_of (refresh opts st)) = backgrounds ?c"
    "content (state_of (refresh opts st)) = content ?c"
    by (simp_all add: r observe_each_frame collectElements_def disconnect_def)
  have rosters: "images ?c =
      filter (\<lambda>i. keep_image opts (doc st ! i)) (querySelectorAll matches_image (doc st))"
    "backgrounds ?c = querySelectorAll matches_background (doc st)"
    "content ?c = querySelectorAll matches_content (doc st)"
    by (simp_all add: collectElements_def disconnect_def)
  have reg: "registered (state_of (refresh opts st)) =
     (if observer st = None then {} else set ?all) \<and>
     isl (refresh opts st) = (observer st = None \<and> ?all \<noteq> [])"
  proof (cases "observer st")
    case None
    then have "observer ?c = None"
      by (simp add: collectElements_def disconnect_def)
    then show ?thesis
      using None by (simp add: r observe_each_null state_of_def registered_def)
  next
    case (Some obs)
    then have c: "observer ?c \<noteq> None" "registered ?c = {}"
      by (simp_all add: collectElements_def disconnect_def registered_def)
    from observe_each_registered[OF c(1), of opts ?all] obtain st' where
      "observe_each opts ?all ?c = Inr st'" "registered st' = registered ?c \<union> set ?all"
      by blast
    then show ?thesis
      using Some c(2) by (simp add: r state_of_def)
  qed
  show ?thesis
    using frame rosters reg by simp
qed

subsection \<open>Loading an image twice\<close>

lemma imageLoader_onload_fields:
  assumes "i < length (doc st)"
  shows "src (doc (imageLoader_onload opts i st) ! i) =
           (if truthy (data_src (doc st ! i)) then data_src (doc st ! i) else src (doc st ! i))"
    and "srcset (doc (imageLoader_onload opts i st) ! i) =
           (if truthy (data_srcset (doc st ! i)) then data_srcset (doc st ! i)
            else srcset (doc st ! i))"
    and "sizes (doc (imageLoader_onload opts i st) ! i) =
           (if truthy (data_sizes (doc st ! i)) then data_sizes (doc st ! i)
            else sizes (doc st ! i))"
    and "data_src (doc (imageLoader_onload opts i st) ! i) =
           (if truthy (data_src (doc st ! i)) then None else data_src (doc st ! i))"
    and "data_srcset (doc (imageLoader_onload opts i st) ! i) =
           (if truthy (data_srcset (doc st ! i)) then None else data_srcset (doc st ! i))"
    and "data_sizes (doc (imageLoader_onload opts i st) ! i) =
           (if truthy (data_sizes (doc st ! i)) then None else data_sizes (doc st ! i))"
    and "classList (doc (imageLoader_onload opts i st) ! i) =
           add_class (loadedClass opts) (remove_class (loadingClass opts) (classList (doc st ! i)))"
    and "loading (doc (imageLoader_onload opts i st) ! i) = loading (doc st ! i)"
    and "tagName (doc (imageLoader_onload opts i st) ! i) = tagName (doc st ! i)"
    and "trace (imageLoader_onload opts i st) = trace st @ [(now st, LazyLoaded i)]"
    and "now (imageLoader_onload opts i st) = now st"
  using assms
  by (simp_all add: imageLoader_onload_def onElementLoaded_def Let_def upd_elem_def
      emit_def setTimeout_def)

lemma truthy_None [simp]: "\<not> truthy None"
  by (simp add: truthy_def)

lemma add_remove_again:
  "add_class b (remove_class a (add_class b (remove_class a cs))) =
   add_class b (remove_class a cs)"
  by (auto simp: add_class_def remove_class_def)

lemma imageLoader_onload_kept:
  assumes "i < length (doc st)"
  shows "attr_loading (doc (imageLoader_onload opts i st) ! i) = attr_loading (doc st ! i)"
    and "img_complete (doc (imageLoader_onload opts i st) ! i) = img_complete (doc st ! i)"
    and "naturalWidth (doc (imageLoader_onload opts i st) ! i) = naturalWidth (doc st ! i)"
    and "data_bg (doc (imageLoader_onload opts i st) ! i) = data_bg (doc st ! i)"
    and "data_lazy (doc (imageLoader_onload opts i st) ! i) = data_lazy (doc st ! i)"
  using assms
  by (simp_all add: imageLoader_onload_def onElementLoaded_def Let_def upd_elem_def
      emit_def setTimeout_def)

lemma imageLoader_onload_fade:
  assumes "i < length (doc st)" and "0 < fadeInDuration opts"
  shows "style_opacity (doc (imageLoader_onload opts i st) ! i) = ''0''"
    and "style_transition (doc (imageLoader_onload opts i st) ! i) = Some (fadeInDuration opts)"
    and "timers (imageLoader_onload opts i st) =
           timers st @ [(now st + (fadeInDuration opts + 50), ClearStyle i)]"
    and "frames (imageLoader_onload opts i st) = frames st @ [i]"
  using assms
  by (simp_all add: imageLoader_onload_def onElementLoaded_def Let_def upd_elem_def
      emit_def setTimeout_def)

lemma add_class_idem: "add_class c (add_class c cs) = add_class c cs"
  by (simp add: add_class_def)

lemma observe_each_classList:
  assumes "observer st \<noteq> None" and "i < length (doc st)"
  shows "classList (doc (state_of (observe_each opts xs st)) ! i) =
           (if i \<in> set xs then add_class (loadingClass opts) (classList (doc st ! i))
            else classList (doc st ! i))"
  using assms
proof (induction xs arbitrary: st)
  case Nil
  show ?case by (simp add: state_of_def)
next
  case (Cons x xs)
  let ?s = "upd_elem x (\<lambda>e. e\<lparr>classList := add_class (loadingClass opts) (classList e)\<rparr>)
              (observe x st)"
  have o: "observer ?s \<noteq> None"
    using Cons.prems(1) by (simp add: observe_observer)
  have l: "i < length (doc ?s)"
    using Cons.prems(2) by simp
  have c: "classList (doc ?s ! i) =
      (if i = x then add_class (loadingClass opts) (classList (doc st ! i))
       else classList (doc st ! i))"
    using Cons.prems(2) by (simp add: doc_upd_elem_cases)
  have eq: "observe_each opts (x # xs) st = observe_each opts xs ?s"
    using Cons.prems(1) by auto
  show ?case
    unfolding eq Cons.IH[OF o l] c by (simp add: add_class_idem)
qed

lemma refresh_classList:
  assumes "i < length (doc st)"
  shows "classList (doc (state_of (refresh opts st)) ! i) =
           (if observer st \<noteq> None \<and>
               i \<in> set (images (state_of (refresh opts st)) @
                        backgrounds (state_of (refresh opts st)) @
                        content (state_of (refresh opts st)))
            then add_class (loadingClass opts) (classList (doc st ! i))
            else classList (doc st ! i))"
proof -
  let ?c = "collectElements opts (disconnect st)"
  let ?all = "images ?c @ backgrounds ?c @ content ?c"
  have r: "refresh opts st = observe_each opts ?all ?c"
    by (simp add: refresh_def observeElements_def)
  have ros: "images (state_of (refresh opts st)) @ backgrounds (state_of (refresh opts st)) @
      content (state_of (refresh opts st)) = ?all"
    by (simp add: r observe_each_frame)
  have d: "doc ?c = doc st"
    by (simp add: disconnect_def)
  show ?thesis
  proof (cases "observer st")
    case None
    then have "observer ?c = None"
      by (simp add: disconnect_def)
    then have "state_of (observe_each opts ?all ?c) = ?c"
      by (simp add: observe_each_null state_of_def)
    then show ?thesis
      using None d by (simp add: r)
  next
    case (Some obs)
    then have o: "observer ?c \<noteq> None"
      by (simp add: disconnect_def)
    have l: "i < length (doc ?c)"
      using assms d by simp
    show ?thesis
      using observe_each_classList[OF o l, of opts ?all] Some d ros unfolding r by simp
  qed
qed

lemma refresh_rosters:
  "images (state_of (refresh opts st)) =
     filter (\<lambda>i. keep_image opts (doc st ! i)) (querySelectorAll matches_image (doc st))"
  "backgrounds (state_of (refresh opts st)) = querySelectorAll matches_background (doc st)"
  "content (state_of (refresh opts st)) = querySelectorAll matches_content (doc st)"
  by (simp_all add: refresh_def observeElements_def observe_each_frame collectElements_def
      disconnect_def)

lemma mem_querySelectorAll:
  "i \<in> set (querySelectorAll sel d) \<longleftrightarrow> i < length d \<and> sel (d ! i)"
  by (auto simp: querySelectorAll_def)

text \<open>
  Claim C3 fails as stated. A second load of a resolved image is not a no-op: it sends a
  new request for \<^verbatim>\<open>src\<close>, and when that succeeds the fade-in style is set again and
  \<^verbatim>\<open>lazyLoaded\<close> is dispatched a second time. And an image that has reached loaded
  re-enters loading: in a browser without \<^verbatim>\<open>img.loading\<close>, \<^verbatim>\<open>refresh()\<close> registers
  the resolved \<^verbatim>\<open><img loading="lazy">\<close> again and adds the loading class beside the
  loaded class.
\<close>

theorem second_load_counterexample:
  "loadedClass default_options \<in> set (classList (doc resolved_image ! 0)) \<and>
   data_src (doc resolved_image ! 0) = None \<and>
   src (doc resolved_image ! 0) = Some ''a.jpg'' \<and>
   style_opacity (doc resolved_image ! 0) = [] \<and>
   pending resolved_image = [] \<and> timers resolved_image = [] \<and>
   trace resolved_image = [(0, Called 0), (0, LazyLoaded 0)] \<and>
   pending (run default_options resolved_image [EvLoadNow 0]) =
     [Request 0 KImage ''a.jpg'' Rehandle] \<and>
   trace loaded_again =
     [(0, Called 0), (0, LazyLoaded 0), (350, Called 0), (350, LazyLoaded 0)] \<and>
   style_opacity (doc loaded_again ! 0) = ''0'' \<and>
   timers loaded_again = [(700, ClearStyle 0)] \<and>
   classList (doc registered_again ! 0) = [''lazy-loaded'', ''lazy-loading''] \<and>
   registered registered_again = {0}"
proof -
  have a: "loadedClass default_options \<in> set (classList (doc resolved_image ! 0)) \<and>
   data_src (doc resolved_image ! 0) = None \<and>
   src (doc resolved_image ! 0) = Some ''a.jpg'' \<and>
   style_opacity (doc resolved_image ! 0) = [] \<and>
   pending resolved_image = [] \<and> timers resolved_image = [] \<and>
   trace resolved_image = [(0, Called 0), (0, LazyLoaded 0)] \<and>
   pending (run default_options resolved_image [EvLoadNow 0]) =
     [Request 0 KImage ''a.jpg'' Rehandle] \<and>
   trace loaded_again =
     [(0, Called 0), (0, LazyLoaded 0), (350, Called 0), (350, LazyLoaded 0)] \<and>
   style_opacity (doc loaded_again ! 0) = ''0'' \<and>
   timers loaded_again = [(700, ClearStyle 0)]"
    by code_simp
  have b: "classList (doc registered_again ! 0) = [''lazy-loaded'', ''lazy-loading'']"
    by code_simp
  have c: "registered registered_again = {0}"
    by code_simp
  from a b c show ?thesis
    by blast
qed

text \<open>
  Claim C3, amended. When the preload of an image succeeds, each non-empty pending
  \<^verbatim>\<open>data-src\<close>, \<^verbatim>\<open>data-srcset\<close>, \<^verbatim>\<open>data-sizes\<close> is copied onto the element and
  deleted, and the element carries the loaded class and (the two class names differing)
  not the loading class. A second load then requests the copied \<^verbatim>\<open>src\<close> again; when
  it succeeds it changes neither \<^verbatim>\<open>src\<close>, \<^verbatim>\<open>srcset\<close>, \<^verbatim>\<open>sizes\<close>, the pending
  attributes nor the class list, but it dispatches \<^verbatim>\<open>lazyLoaded\<close> again and, with a
  fade-in duration, sets the fade-in style, its timer and its frame callback again.
  \<^verbatim>\<open>refresh()\<close> after the load puts the image on the image roster exactly when it is
  an image with the attribute \<^verbatim>\<open>loading="lazy"\<close> that is not complete with a natural
  width and that native loading does not exclude (\<^verbatim>\<open>img.loading\<close> is not
  \<^verbatim>\<open>'lazy'\<close>, or \<^verbatim>\<open>enableNativeLoading\<close> is off); it puts it on the other rosters
  when it has \<^verbatim>\<open>data-bg\<close> or \<^verbatim>\<open>data-lazy\<close>; and the element carries the loading
  class again exactly when there is an observer and it is on one of the rosters.
\<close>

theorem image_load_resolves:
  assumes "i < length (doc st)"
  shows "let e = doc st ! i;
             st1 = imageLoader_onload opts i st; e1 = doc st1 ! i;
             st2 = imageLoader_onload opts i st1; e2 = doc st2 ! i;
             st3 = state_of (refresh opts st1)
         in src e1 = (if truthy (data_src e) then data_src e else src e) \<and>
            srcset e1 = (if truthy (data_srcset e) then data_srcset e else srcset e) \<and>
            sizes e1 = (if truthy (data_sizes e) then data_sizes e else sizes e) \<and>
            data_src e1 = (if truthy (data_src e) then None else data_src e) \<and>
            data_srcset e1 = (if truthy (data_srcset e) then None else data_srcset e) \<and>
            data_sizes e1 = (if truthy (data_sizes e) then None else data_sizes e) \<and>
            loadedClass opts \<in> set (classList e1) \<and>
            (loadingClass opts \<noteq> loadedClass opts \<longrightarrow>
               loadingClass opts \<notin> set (classList e1)) \<and>
            (truthy (data_src e) \<longrightarrow>
               pending (loadImage opts h i st1) =
                 pending st1 @ [Request i KImage (the (data_src e)) h]) \<and>
            src e2 = src e1 \<and> srcset e2 = srcset e1 \<and> sizes e2 = sizes e1 \<and>
            data_src e2 = data_src e1 \<and> data_srcset e2 = data_srcset e1 \<and>
            data_sizes e2 = data_sizes e1 \<and> classList e2 = classList e1 \<and>
            trace st1 = trace st @ [(now st, LazyLoaded i)] \<and>
            trace st2 = trace st1 @ [(now st, LazyLoaded i)] \<and>
            (0 < fadeInDuration opts \<longrightarrow>
               style_opacity e2 = ''0'' \<and>
               style_transition e2 = Some (fadeInDuration opts) \<and>
               timers st2 = timers st1 @ [(now st + (fadeInDuration opts + 50), ClearStyle i)] \<and>
               frames st2 = frames st1 @ [i]) \<and>
            (truthy (data_src e) \<longrightarrow>
               (i \<in> set (images st3) \<longleftrightarrow>
                  tagName e1 = ''IMG'' \<and> attr_loading e1 = Some ''lazy'' \<and>
                  \<not> (img_complete e1 \<and> 0 < naturalWidth e1) \<and>
                  \<not> (loading e1 = Some ''lazy'' \<and> enableNativeLoading opts)) \<and>
               (i \<in> set (backgrounds st3) \<longleftrightarrow> data_bg e1 \<noteq> None) \<and>
               (i \<in> set (content st3) \<longleftrightarrow> data_lazy e1 \<noteq> None)) \<and>
            (loadingClass opts \<noteq> loadedClass opts \<longrightarrow>
               (loadingClass opts \<in> set (classList (doc st3 ! i)) \<longleftrightarrow>
                  observer st \<noteq> None \<and>
                  i \<in> set (images st3 @ backgrounds st3 @ content st3)))"
proof -
  let ?e = "doc st ! i"
  let ?st1 = "imageLoader_onload opts i st"
  let ?e1 = "doc ?st1 ! i"
  let ?st2 = "imageLoader_onload opts i ?st1"
  let ?e2 = "doc ?st2 ! i"
  let ?st3 = "state_of (refresh opts ?st1)"
  have i1: "i < length (doc ?st1)"
    using assms by simp
  note f1 = imageLoader_onload_fields[OF assms, of opts]
  note f2 = imageLoader_onload_fields[OF i1, of opts]
  have first: "src ?e1 = (if truthy (data_src ?e) then data_src ?e else src ?e)"
    "srcset ?e1 = (if truthy (data_srcset ?e) then data_srcset ?e else srcset ?e)"
    "sizes ?e1 = (if truthy (data_sizes ?e) then data_sizes ?e else sizes ?e)"
    "data_src ?e1 = (if truthy (data_src ?e) then None else data_src ?e)"
    "data_srcset ?e1 = (if truthy (data_srcset ?e) then None else data_srcset ?e)"
    "data_sizes ?e1 = (if truthy (data_sizes ?e) then None else data_sizes ?e)"
    by (rule f1)+
  have nt: "\<not> truthy (data_src ?e1)" "\<not> truthy (data_srcset ?e1)" "\<not> truthy (data_sizes ?e1)"
    by (simp_all add: first)
  have cls: "loadedClass opts \<in> set (classList ?e1)"
    "loadingClass opts \<noteq> loadedClass opts \<longrightarrow> loadingClass opts \<notin> set (classList ?e1)"
    by (auto simp: f1(7) add_class_def remove_class_def)
  have again: "src ?e2 = src ?e1" "srcset ?e2 = srcset ?e1" "sizes ?e2 = sizes ?e1"
    "data_src ?e2 = data_src ?e1" "data_srcset ?e2 = data_srcset ?e1"
    "data_sizes ?e2 = data_sizes ?e1"
    using nt by (simp_all add: f2)
  have cls2: "classList ?e2 = classList ?e1"
    by (simp add: f2(7) f1(7) add_remove_again)
  have tr: "trace ?st1 = trace st @ [(now st, LazyLoaded i)]"
    "trace ?st2 = trace ?st1 @ [(now st, LazyLoaded i)]"
    by (simp_all add: f1(10,11) f2(10))
  have req: "truthy (data_src ?e) \<longrightarrow> pending (loadImage opts h i ?st1) =
      pending ?st1 @ [Request i KImage (the (data_src ?e)) h]"
    by (simp add: loadImage_def Let_def js_or_def first)
  have fade: "0 < fadeInDuration opts \<longrightarrow>
      style_opacity ?e2 = ''0'' \<and> style_transition ?e2 = Some (fadeInDuration opts) \<and>
      timers ?st2 = timers ?st1 @ [(now st + (fadeInDuration opts + 50), ClearStyle i)] \<and>
      frames ?st2 = frames ?st1 @ [i]"
    using imageLoader_onload_fade[OF i1, of opts] f1(11) by simp
  have ros: "truthy (data_src ?e) \<longrightarrow>
      (i \<in> set (images ?st3) \<longleftrightarrow>
         tagName ?e1 = ''IMG'' \<and> attr_loading ?e1 = Some ''lazy'' \<and>
         \<not> (img_complete ?e1 \<and> 0 < naturalWidth ?e1) \<and>
         \<not> (loading ?e1 = Some ''lazy'' \<and> enableNativeLoading opts)) \<and>
      (i \<in> set (backgrounds ?st3) \<longleftrightarrow> data_bg ?e1 \<noteq> None) \<and>
      (i \<in> set (content ?st3) \<longleftrightarrow> data_lazy ?e1 \<noteq> None)"
  proof
    assume "truthy (data_src ?e)"
    then have "data_src ?e1 = None"
      by (simp add: first)
    then show "(i \<in> set (images ?st3) \<longleftrightarrow>
         tagName ?e1 = ''IMG'' \<and> attr_loading ?e1 = Some ''lazy'' \<and>
         \<not> (img_complete ?e1 \<and> 0 < naturalWidth ?e1) \<and>
         \<not> (loading ?e1 = Some ''lazy'' \<and> enableNativeLoading opts)) \<and>
      (i \<in> set (backgrounds ?st3) \<longleftrightarrow> data_bg ?e1 \<noteq> None) \<and>
      (i \<in> set (content ?st3) \<longleftrightarrow> data_lazy ?e1 \<noteq> None)"
      using i1
      by (auto simp: refresh_rosters mem_querySelectorAll matches_image_def keep_image_def
          matches_background_def matches_content_def)
  qed
  have o1: "observer ?st1 = observer st"
    by simp
  have relo: "loadingClass opts \<noteq> loadedClass opts \<longrightarrow>
      (loadingClass opts \<in> set (classList (doc ?st3 ! i)) \<longleftrightarrow>
         observer st \<noteq> None \<and> i \<in> set (images ?st3 @ backgrounds ?st3 @ content ?st3))"
  proof
    assume "loadingClass opts \<noteq> loadedClass opts"
    then have n: "loadingClass opts \<notin> set (classList ?e1)"
      using cls(2) by simp
    show "loadingClass opts \<in> set (classList (doc ?st3 ! i)) \<longleftrightarrow>
         observer st \<noteq> None \<and> i \<in> set (images ?st3 @ backgrounds ?st3 @ content ?st3)"
      unfolding refresh_classList[OF i1, of opts] o1 using n by simp
  qed
  show ?thesis
    unfolding Let_def using first cls again cls2 tr req fade ros relo by blast
qed

theorem image_load_resolves_witness:
  "truthy (data_src (doc unresolved_image ! 0)) \<and>
   loadingClass default_options \<noteq> loadedClass default_options \<and>
   0 < fadeInDuration default_options \<and> observer unresolved_image \<noteq> None \<and>
   src (doc (imageLoader_onload default_options 0 unresolved_image) ! 0) = Some ''a.jpg'' \<and>
   data_src (doc (imageLoader_onload default_options 0 unresolved_image) ! 0) = None \<and>
   loadingClass default_options \<notin>
     set (classList (doc (imageLoader_onload default_options 0 unresolved_image) ! 0)) \<and>
   pending (loadImage default_options Rehandle 0
              (imageLoader_onload default_options 0 unresolved_image)) =
     [Request 0 KImage ''a.jpg'' Rehandle] \<and>
   style_opacity (doc (imageLoader_onload default_options 0
      (imageLoader_onload default_options 0 unresolved_image)) ! 0) = ''0'' \<and>
   0 \<notin> set (images (state_of (refresh default_options
                 (imageLoader_onload default_options 0 unresolved_image)))) \<and>
   loadingClass default_options \<notin>
     set (classList (doc (state_of (refresh default_options
                 (imageLoader_onload default_options 0 unresolved_image))) ! 0))"
proof -
  let ?st1 = "imageLoader_onload default_options 0 unresolved_image"
  have len: "0 < length (doc unresolved_image)"
    by (simp add: unresolved_image_def fresh_def)
  have e: "truthy (data_src (doc unresolved_image ! 0))"
    "data_src (doc unresolved_image ! 0) = Some ''a.jpg''"
    "loadingClass default_options \<noteq> loadedClass default_options"
    "0 < fadeInDuration default_options" "enableNativeLoading default_options"
    "observer unresolved_image \<noteq> None"
    by (simp_all add: unresolved_image_def fresh_def lazy_img_def blank_def truthy_def
        default_options_def)
  have k: "loading (doc ?st1 ! 0) = Some ''lazy''" "data_bg (doc ?st1 ! 0) = None"
    "data_lazy (doc ?st1 ! 0) = None"
    using imageLoader_onload_fields(8)[OF len, of default_options]
      imageLoader_onload_kept(4,5)[OF len, of default_options]
    by (simp_all add: unresolved_image_def fresh_def lazy_img_def blank_def)
  have p: "pending ?st1 = []"
    by (simp add: imageLoader_onload_def unresolved_image_def fresh_def)
  from image_load_resolves[OF len, of default_options Rehandle] e k p show ?thesis
    by (simp add: Let_def)
qed

subsection \<open>One marker class at a time\<close>

lemma one_marker_map:
  "one_marker opts st = list_all (\<lambda>m. length m \<le> 1) (map (markers opts) (doc st))"
  by (simp add: one_marker_def list_all_iff)

text \<open>
  Claim C5 fails as stated: once an image has been marked errored, \<^verbatim>\<open>refresh()\<close>
  collects it again (it still has its \<^verbatim>\<open>data-src\<close>) and adds the loading class
  beside the error class.
\<close>

theorem two_markers_counterexample:
  "map (markers default_options) (doc errored_then_refreshed) =
     [[''lazy-loading'', ''lazy-error'']] \<and>
   \<not> one_marker default_options errored_then_refreshed"
proof -
  have "map (markers default_options) (doc errored_then_refreshed) =
      [[''lazy-loading'', ''lazy-error'']]"
    by code_simp
  then show ?thesis
    by (simp add: one_marker_map)
qed

lemma one_marker_upd:
  assumes "one_marker opts st"
    and "i < length (doc st) \<Longrightarrow> length (markers opts (f (doc st ! i))) \<le> 1"
  shows "one_marker opts (upd_elem i f st)"
proof (cases "i < length (doc st)")
  case True
  have "set ((doc st)[i := f (doc st ! i)]) \<subseteq> insert (f (doc st ! i)) (set (doc st))"
    by (rule set_update_subset_insert)
  then show ?thesis
    using assms True by (auto simp: one_marker_def list_all_iff upd_elem_def)
next
  case False
  then have "(doc st)[i := f (doc st ! i)] = doc st"
    by (simp add: list_update_beyond not_less)
  then show ?thesis using assms(1) by (simp add: one_marker_def upd_elem_def)
qed

lemma one_marker_cong: "doc st' = doc st \<Longrightarrow> one_marker opts st' = one_marker opts st"
  by (simp add: one_marker_def)

lemma one_marker_nth: "one_marker opts st \<Longrightarrow> i < length (doc st) \<Longrightarrow>
    length (markers opts (doc st ! i)) \<le> 1"
  by (simp add: one_marker_def list_all_length)

lemma markers_add_loading:
  assumes "distinct [loadingClass opts, loadedClass opts, errorClass opts]"
    and "\<not> settled opts e"
  shows "length (markers opts (e\<lparr>classList := add_class (loadingClass opts) (classList e)\<rparr>)) \<le> 1"
    and "\<not> settled opts (e\<lparr>classList := add_class (loadingClass opts) (classList e)\<rparr>)"
  using assms by (auto simp: markers_def settled_def add_class_def)

lemma markers_loaded:
  assumes "distinct [loadingClass opts, loadedClass opts, errorClass opts]"
    and "errorClass opts \<notin> set (classList e)"
  shows "length (markers opts (e\<lparr>classList :=
           add_class (loadedClass opts) (remove_class (loadingClass opts) (classList e))\<rparr>)) \<le> 1"
  using assms by (auto simp: markers_def add_class_def remove_class_def)

lemma markers_error:
  assumes "distinct [loadingClass opts, loadedClass opts, errorClass opts]"
    and "loadedClass opts \<notin> set (classList e)"
  shows "length (markers opts (e\<lparr>classList :=
           add_class (errorClass opts) (remove_class (loadingClass opts) (classList e))\<rparr>)) \<le> 1"
  using assms by (auto simp: markers_def add_class_def remove_class_def)

lemma markers_other_fields [simp]:
  "markers opts (e\<lparr>style_opacity := a\<rparr>) = markers opts e"
  "markers opts (e\<lparr>style_transition := b\<rparr>) = markers opts e"
  "markers opts (e\<lparr>src := c\<rparr>) = markers opts e"
  by (simp_all add: markers_def)

lemma one_marker_fields [simp]:
  "one_marker opts (emit a st) = one_marker opts st"
  "one_marker opts (setTimeout t d st) = one_marker opts st"
  "one_marker opts (observe i st) = one_marker opts st"
  "one_marker opts (st\<lparr>frames := fs\<rparr>) = one_marker opts st"
  "one_marker opts (st\<lparr>loadAttempts := la\<rparr>) = one_marker opts st"
  by (simp_all add: one_marker_def)

lemma onElementLoaded_one_marker:
  assumes d: "distinct [loadingClass opts, loadedClass opts, errorClass opts]"
    and inv: "one_marker opts st"
    and ne: "errorClass opts \<notin> set (classList (doc st ! i))"
  shows "one_marker opts (onElementLoaded opts i st)"
proof -
  let ?s1 = "upd_elem i (\<lambda>e. e\<lparr>classList :=
               add_class (loadedClass opts) (remove_class (loadingClass opts) (classList e))\<rparr>) st"
  have s1: "one_marker opts ?s1"
    using markers_loaded[OF d ne] by (intro one_marker_upd[OF inv]) simp
  have "one_marker opts (upd_elem i (\<lambda>e. e\<lparr>style_opacity := ''0'',
           style_transition := Some (fadeInDuration opts)\<rparr>) ?s1)"
  proof (rule one_marker_upd[OF s1])
    assume "i < length (doc ?s1)"
    then show "length (markers opts ((doc ?s1 ! i)\<lparr>style_opacity := ''0'',
           style_transition := Some (fadeInDuration opts)\<rparr>)) \<le> 1"
      using one_marker_nth[OF s1, of i] by simp
  qed
  then show ?thesis
    using s1 by (simp add: onElementLoaded_def Let_def)
qed

lemma handleLoadError_one_marker:
  assumes d: "distinct [loadingClass opts, loadedClass opts, errorClass opts]"
    and inv: "one_marker opts st"
    and ne: "loadedClass opts \<notin> set (classList (doc st ! i))"
  shows "one_marker opts (handleLoadError opts i st)"
proof -
  let ?s1 = "upd_elem i (\<lambda>e. e\<lparr>classList :=
               add_class (errorClass opts) (remove_class (loadingClass opts) (classList e))\<rparr>) st"
  have s1: "one_marker opts ?s1"
    using markers_error[OF d ne] by (intro one_marker_upd[OF inv]) simp
  have "one_marker opts (upd_elem i (\<lambda>e. if tagName e = ''IMG'' \<and> truthy (data_placeholder e)
           then e\<lparr>src := data_placeholder e\<rparr> else e) ?s1)"
  proof (rule one_marker_upd[OF s1])
    assume "i < length (doc ?s1)"
    then show "length (markers opts
        (if tagName (doc ?s1 ! i) = ''IMG'' \<and> truthy (data_placeholder (doc ?s1 ! i))
         then (doc ?s1 ! i)\<lparr>src := data_placeholder (doc ?s1 ! i)\<rparr> else doc ?s1 ! i)) \<le> 1"
      using one_marker_nth[OF s1, of i] by simp
  qed
  then show ?thesis
    using inv by (simp add: handleLoadError_def Let_def)
qed

lemma observe_each_one_marker:
  assumes d: "distinct [loadingClass opts, loadedClass opts, errorClass opts]"
  shows "one_marker opts st \<Longrightarrow> \<forall>i \<in> set xs. \<not> settled opts (doc st ! i) \<Longrightarrow>
         one_marker opts (state_of (observe_each opts xs st))"
proof (induction xs arbitrary: st)
  case Nil
  then show ?case by (simp add: state_of_def)
next
  case (Cons x xs)
  let ?f = "\<lambda>e. e\<lparr>classList := add_class (loadingClass opts) (classList e)\<rparr>"
  let ?s = "upd_elem x ?f (observe x st)"
  show ?case
  proof (cases "observer st = None")
    case True
    then show ?thesis using Cons.prems(1) by (simp add: state_of_def)
  next
    case False
    have nx: "\<not> settled opts (doc st ! x)" using Cons.prems(2) by simp
    have o: "one_marker opts (observe x st)"
      using Cons.prems(1) by simp
    have inv: "one_marker opts ?s"
      by (rule one_marker_upd[OF o]) (use markers_add_loading(1)[OF d nx] in simp)
    have rest: "\<forall>i \<in> set xs. \<not> settled opts (doc ?s ! i)"
    proof
      fix i assume i: "i \<in> set xs"
      then have ni: "\<not> settled opts (doc st ! i)" using Cons.prems(2) by simp
      show "\<not> settled opts (doc ?s ! i)"
        using ni markers_add_loading(2)[OF d nx] by (auto simp: doc_upd_elem_cases)
    qed
    show ?thesis
      using False Cons.IH[OF inv rest] by auto
  qed
qed

lemma process_each_one_marker:
  assumes d: "distinct [loadingClass opts, loadedClass opts, errorClass opts]"
  shows "one_marker opts st \<Longrightarrow> \<forall>i \<in> set xs. \<not> settled opts (doc st ! i) \<Longrightarrow>
         one_marker opts (state_of (process_each opts xs st))"
proof (induction xs arbitrary: st)
  case Nil
  then show ?case by (simp add: state_of_def)
next
  case (Cons x xs)
  let ?f = "\<lambda>e. e\<lparr>classList := add_class (loadingClass opts) (classList e)\<rparr>"
  let ?s = "upd_elem x ?f (observe x st)"
  show ?case
  proof (cases "loadingClass opts \<in> set (classList (doc st ! x))")
    case True
    then show ?thesis using Cons.IH[of st] Cons.prems by simp
  next
    case nl: False
    show ?thesis
    proof (cases "observer st = None")
      case True
      then show ?thesis using nl Cons.prems(1) by (simp add: state_of_def)
    next
      case False
      have nx: "\<not> settled opts (doc st ! x)" using Cons.prems(2) by simp
      have o: "one_marker opts (observe x st)"
        using Cons.prems(1) by simp
      have inv: "one_marker opts ?s"
        by (rule one_marker_upd[OF o]) (use markers_add_loading(1)[OF d nx] in simp)
      have rest: "\<forall>i \<in> set xs. \<not> settled opts (doc ?s ! i)"
      proof
        fix i assume i: "i \<in> set xs"
        then have ni: "\<not> settled opts (doc st ! i)" using Cons.prems(2) by simp
        show "\<not> settled opts (doc ?s ! i)"
        using ni markers_add_loading(2)[OF d nx] by (auto simp: doc_upd_elem_cases)
      qed
      show ?thesis
        using nl False Cons.IH[OF inv rest] by auto
    qed
  qed
qed

text \<open>
  Claim C5, amended. Let the three marker class names differ and every element carry at
  most one of them. Then this still holds after \<^verbatim>\<open>observeElements\<close>, after
  \<^verbatim>\<open>refresh\<close> and after \<^verbatim>\<open>processNewContent\<close>, provided none of the elements they
  register is settled; after \<^verbatim>\<open>onElementLoaded\<close> on an element without the error
  class; and after \<^verbatim>\<open>handleLoadError\<close> on an element without the loaded class. Each of
  these adds its class and removes at most the loading class.
\<close>

theorem one_marker_preserved:
  assumes d: "distinct [loadingClass opts, loadedClass opts, errorClass opts]"
    and inv: "one_marker opts st"
  shows "(list_all (\<lambda>i. \<not> settled opts (doc st ! i)) (images st @ backgrounds st @ content st) \<longrightarrow>
            one_marker opts (state_of (observeElements opts st))) \<and>
         (list_all (\<lambda>i. \<not> settled opts (doc st ! i))
            (images (collectElements opts st) @ backgrounds (collectElements opts st) @
             content (collectElements opts st)) \<longrightarrow>
            one_marker opts (state_of (refresh opts st))) \<and>
         (list_all (\<lambda>i. \<not> settled opts (doc st ! i)) (descendants st c) \<longrightarrow>
            one_marker opts (state_of (processNewContent opts c st))) \<and>
         (errorClass opts \<notin> set (classList (doc st ! i)) \<longrightarrow>
            one_marker opts (onElementLoaded opts i st)) \<and>
         (loadedClass opts \<notin> set (classList (doc st ! i)) \<longrightarrow>
            one_marker opts (handleLoadError opts i st))"
proof (intro conjI impI)
  assume "list_all (\<lambda>i. \<not> settled opts (doc st ! i)) (images st @ backgrounds st @ content st)"
  then have "\<forall>i \<in> set (images st @ backgrounds st @ content st). \<not> settled opts (doc st ! i)"
    by (simp add: list_all_iff)
  then show "one_marker opts (state_of (observeElements opts st))"
    unfolding observeElements_def by (rule observe_each_one_marker[OF d inv])
next
  let ?c = "collectElements opts (disconnect st)"
  assume "list_all (\<lambda>i. \<not> settled opts (doc st ! i))
            (images (collectElements opts st) @ backgrounds (collectElements opts st) @
             content (collectElements opts st))"
  then have a: "\<forall>i \<in> set (images ?c @ backgrounds ?c @ content ?c). \<not> settled opts (doc ?c ! i)"
    by (simp add: list_all_iff collectElements_def disconnect_def)
  have "one_marker opts ?c"
    using inv by (simp add: one_marker_def disconnect_def)
  then show "one_marker opts (state_of (refresh opts st))"
    unfolding refresh_def observeElements_def using a by (rule observe_each_one_marker[OF d])
next
  let ?d = "descendants st c"
  let ?xs = "filter (\<lambda>i. matches_image (doc st ! i)) ?d @
            filter (\<lambda>i. matches_background (doc st ! i)) ?d @
            filter (\<lambda>i. matches_content (doc st ! i)) ?d"
  assume "list_all (\<lambda>i. \<not> settled opts (doc st ! i)) (descendants st c)"
  then have "\<forall>i \<in> set ?xs. \<not> settled opts (doc st ! i)"
    by (auto simp: list_all_iff)
  then show "one_marker opts (state_of (processNewContent opts c st))"
    unfolding processNewContent_def Let_def by (rule process_each_one_marker[OF d inv])
next
  assume "errorClass opts \<notin> set (classList (doc st ! i))"
  then show "one_marker opts (onElementLoaded opts i st)"
    by (rule onElementLoaded_one_marker[OF d inv])
next
  assume "loadedClass opts \<notin> set (classList (doc st ! i))"
  then show "one_marker opts (handleLoadError opts i st)"
    by (rule handleLoadError_one_marker[OF d inv])
qed


theorem one_marker_preserved_witness:
  "distinct [loadingClass default_options, loadedClass default_options,
             errorClass default_options] \<and>
   one_marker default_options marked_state \<and>
   images marked_state @ backgrounds marked_state @ content marked_state = [1] \<and>
   images (collectElements default_options marked_state) = [1] \<and>
   descendants marked_state 0 = [1] \<and>
   \<not> settled default_options (doc marked_state ! 1) \<and>
   one_marker default_options (state_of (observeElements default_options marked_state)) \<and>
   one_marker default_options (state_of (refresh default_options marked_state)) \<and>
   one_marker default_options (state_of (processNewContent default_options 0 marked_state)) \<and>
   one_marker default_options (onElementLoaded default_options 1 marked_state) \<and>
   one_marker default_options (handleLoadError default_options 1 marked_state)"
proof -
  have d: "distinct [loadingClass default_options, loadedClass default_options,
             errorClass default_options]"
    by (simp add: default_options_def)
  have inv: "one_marker default_options marked_state"
    by code_simp
  have r: "images marked_state @ backgrounds marked_state @ content marked_state = [1]"
    "descendants marked_state 0 = [1]"
    by (simp_all add: marked_state_def fresh_def descendants_def)
  have c: "images (collectElements default_options marked_state) = [1]"
    "backgrounds (collectElements default_options marked_state) = []"
    "content (collectElements default_options marked_state) = []"
    by code_simp+
  have n: "\<not> settled default_options (doc marked_state ! 1)"
    "errorClass default_options \<notin> set (classList (doc marked_state ! 1))"
    "loadedClass default_options \<notin> set (classList (doc marked_state ! 1))"
    by (simp_all add: marked_state_def fresh_def settled_def lazy_img_def blank_def)
  from one_marker_preserved[OF d inv, of 0 1] r c n d inv show ?thesis
    by simp
qed

subsection \<open>Without an observer\<close>

text \<open>
  Claim C7 fails as stated: without an observer, \<^verbatim>\<open>init()\<close> on a document whose one
  collected image has an empty \<^verbatim>\<open>data-src\<close> leaves the image without a marker class,
  with no request in flight and no timer set: it ends neither loaded nor errored.
\<close>

theorem fallback_counterexample:
  "images fallback_no_payload = [0] \<and> observer fallback_no_payload = None \<and>
   pending fallback_no_payload = [] \<and> timers fallback_no_payload = [] \<and>
   frames fallback_no_payload = [] \<and> trace fallback_no_payload = [] \<and>
   map classList (doc fallback_no_payload) = [[]] \<and>
   \<not> has_marker default_options (doc fallback_no_payload ! 0)"
  by code_simp

lemma fold_loadImage_swallow:
  "fold (loadImage opts Swallow) xs st =
     st\<lparr>pending := pending st @
          map (image_request (doc st))
            (filter (\<lambda>i. truthy (js_or (data_src (doc st ! i)) (src (doc st ! i)))) xs)\<rparr>"
proof (induction xs arbitrary: st)
  case Nil
  show ?case by simp
next
  case (Cons x xs)
  have step: "loadImage opts Swallow x st =
      (if truthy (js_or (data_src (doc st ! x)) (src (doc st ! x)))
       then st\<lparr>pending := pending st @ [image_request (doc st) x]\<rparr> else st)"
    by (simp add: loadImage_def Let_def rejected_def image_request_def)
  show ?case
    by (simp add: step Cons.IH)
qed

lemma fold_loadBackground_swallow:
  "fold (loadBackground opts Swallow) xs st =
     st\<lparr>pending := pending st @
          map (background_request (doc st)) (filter (\<lambda>i. truthy (data_bg (doc st ! i))) xs)\<rparr>"
proof (induction xs arbitrary: st)
  case Nil
  show ?case by simp
next
  case (Cons x xs)
  have step: "loadBackground opts Swallow x st =
      (if truthy (data_bg (doc st ! x))
       then st\<lparr>pending := pending st @ [background_request (doc st) x]\<rparr> else st)"
    by (simp add: loadBackground_def Let_def rejected_def background_request_def)
  show ?case
    by (simp add: step Cons.IH)
qed

lemma onElementLoaded_elem:
  "data_lazy (doc (onElementLoaded opts j st) ! i) = data_lazy (doc st ! i)"
  "j \<noteq> i \<Longrightarrow> doc (onElementLoaded opts j st) ! i = doc st ! i"
  "loadedClass opts \<in> set (classList (doc st ! i)) \<Longrightarrow>
     loadedClass opts \<in> set (classList (doc (onElementLoaded opts j st) ! i))"
  "i < length (doc st) \<Longrightarrow>
     loadedClass opts \<in> set (classList (doc (onElementLoaded opts i st) ! i))"
  by (simp_all add: onElementLoaded_def Let_def doc_upd_elem_cases)

lemma onElementLoaded_untouched [simp]:
  "timers (onElementLoaded opts i st) =
     timers st @ (if fadeInDuration opts > 0
                  then [(now st + (fadeInDuration opts + 50), ClearStyle i)] else [])"
  "trace (onElementLoaded opts i st) = trace st @ [(now st, LazyLoaded i)]"
  by (simp_all add: onElementLoaded_def Let_def)

lemma fold_loadContent_swallow:
  "pending (fold (loadContent opts Swallow) xs st) =
     pending st @ map (content_request (doc st)) (filter (\<lambda>i. truthy (data_lazy (doc st ! i))) xs) \<and>
   observer (fold (loadContent opts Swallow) xs st) = observer st \<and>
   loadAttempts (fold (loadContent opts Swallow) xs st) = loadAttempts st \<and>
   length (doc (fold (loadContent opts Swallow) xs st)) = length (doc st) \<and>
   (\<forall>i. data_lazy (doc (fold (loadContent opts Swallow) xs st) ! i) = data_lazy (doc st ! i)) \<and>
   (\<forall>i. loadedClass opts \<in> set (classList (doc st ! i)) \<longrightarrow>
        loadedClass opts \<in> set (classList (doc (fold (loadContent opts Swallow) xs st) ! i))) \<and>
   (\<forall>i. i \<in> set xs \<and> \<not> truthy (data_lazy (doc st ! i)) \<and> i < length (doc st) \<longrightarrow>
        loadedClass opts \<in> set (classList (doc (fold (loadContent opts Swallow) xs st) ! i))) \<and>
   (\<forall>i. \<not> (i \<in> set xs \<and> \<not> truthy (data_lazy (doc st ! i))) \<longrightarrow>
        doc (fold (loadContent opts Swallow) xs st) ! i = doc st ! i)"
proof (induction xs arbitrary: st)
  case Nil
  show ?case by simp
next
  case (Cons x xs)
  let ?s = "loadContent opts Swallow x st"
  note IH = Cons.IH[of ?s]
  show ?case
  proof (cases "truthy (data_lazy (doc st ! x))")
    case True
    then have s: "?s = st\<lparr>pending := pending st @ [content_request (doc st) x]\<rparr>"
      by (simp add: loadContent_def Let_def content_request_def)
    have d: "doc ?s = doc st" "pending ?s = pending st @ [content_request (doc st) x]"
      "observer ?s = observer st" "loadAttempts ?s = loadAttempts st"
      by (simp_all add: s)
    show ?thesis
      using IH True unfolding d by auto
  next
    case False
    then have s: "?s = onElementLoaded opts x st"
      by (simp add: loadContent_def Let_def)
    have dl: "\<And>i. data_lazy (doc ?s ! i) = data_lazy (doc st ! i)"
      unfolding s by (rule onElementLoaded_elem(1))
    have cr: "map (content_request (doc ?s)) (filter (\<lambda>i. truthy (data_lazy (doc ?s ! i))) xs) =
          map (content_request (doc st)) (filter (\<lambda>i. truthy (data_lazy (doc st ! i))) xs)"
      by (simp add: dl content_request_def)
    have p: "pending ?s = pending st" "observer ?s = observer st"
      "loadAttempts ?s = loadAttempts st" "length (doc ?s) = length (doc st)"
      unfolding s by simp_all
    have keep: "\<And>i. loadedClass opts \<in> set (classList (doc st ! i)) \<Longrightarrow>
        loadedClass opts \<in> set (classList (doc ?s ! i))"
      unfolding s by (rule onElementLoaded_elem(3))
    have here: "x < length (doc st) \<Longrightarrow> loadedClass opts \<in> set (classList (doc ?s ! x))"
      unfolding s by (rule onElementLoaded_elem(4))
    have other: "\<And>i. i \<noteq> x \<Longrightarrow> doc ?s ! i = doc st ! i"
      unfolding s by (rule onElementLoaded_elem(2)) simp
    show ?thesis
    proof (intro conjI allI impI)
      show "pending (fold (loadContent opts Swallow) (x # xs) st) =
        pending st @ map (content_request (doc st))
          (filter (\<lambda>i. truthy (data_lazy (doc st ! i))) (x # xs))"
        using IH False cr p by simp
      show "observer (fold (loadContent opts Swallow) (x # xs) st) = observer st"
        using IH p by simp
      show "loadAttempts (fold (loadContent opts Swallow) (x # xs) st) = loadAttempts st"
        using IH p by simp
      show "length (doc (fold (loadContent opts Swallow) (x # xs) st)) = length (doc st)"
        using IH p by simp
      show "data_lazy (doc (fold (loadContent opts Swallow) (x # xs) st) ! i) =
          data_lazy (doc st ! i)" for i
        using IH dl by simp
      show "loadedClass opts \<in> set (classList (doc (fold (loadContent opts Swallow) (x # xs) st) ! i))"
        if "loadedClass opts \<in> set (classList (doc st ! i))" for i
        using IH keep[OF that] by simp
      show "loadedClass opts \<in> set (classList (doc (fold (loadContent opts Swallow) (x # xs) st) ! i))"
        if "i \<in> set (x # xs) \<and> \<not> truthy (data_lazy (doc st ! i)) \<and> i < length (doc st)" for i
      proof (cases "i = x")
        case True
        then have "loadedClass opts \<in> set (classList (doc ?s ! i))"
          using here that by simp
        then show ?thesis using IH by simp
      next
        case False
        then have "i \<in> set xs \<and> \<not> truthy (data_lazy (doc ?s ! i)) \<and> i < length (doc ?s)"
          using that dl p by simp
        then show ?thesis using IH by simp
      qed
      show "doc (fold (loadContent opts Swallow) (x # xs) st) ! i = doc st ! i"
        if "\<not> (i \<in> set (x # xs) \<and> \<not> truthy (data_lazy (doc st ! i)))" for i
      proof -
        have nx: "i \<noteq> x" using that False by auto
        have "\<not> (i \<in> set xs \<and> \<not> truthy (data_lazy (doc ?s ! i)))"
          using that dl by auto
        then have "doc (fold (loadContent opts Swallow) xs ?s) ! i = doc ?s ! i"
          using IH by blast
        then show ?thesis using other[OF nx] by simp
      qed
    qed
  qed
qed

text \<open>
  Claim C7, amended. Without an observer \<^verbatim>\<open>init()\<close> does not throw, leaves the
  observer and the attempt counters as they are, and starts at once, in roster order
  (images, backgrounds, content), one request for every collected element that has a
  non-empty URL. A placeholder with an empty \<^verbatim>\<open>data-lazy\<close> is marked loaded; every
  other element is left as it is, so a collected image or background without URL gets no
  marker. When a request started here fails, the element is handed to
  \<^verbatim>\<open>handleLoadError\<close> once; when a request for an image or a background succeeds, the
  element is marked loaded.
\<close>

theorem fallback_init:
  assumes "j < length (doc s)"
  shows
  "init opts False st = Inr (loadAllImmediately opts st) \<and>
   observer (loadAllImmediately opts st) = observer st \<and>
   loadAttempts (loadAllImmediately opts st) = loadAttempts st \<and>
   pending (loadAllImmediately opts st) =
     pending st @
     map (image_request (doc st))
       (filter (\<lambda>i. truthy (js_or (data_src (doc st ! i)) (src (doc st ! i))))
          (images (collectElements opts st))) @
     map (background_request (doc st))
       (filter (\<lambda>i. truthy (data_bg (doc st ! i))) (backgrounds (collectElements opts st))) @
     map (content_request (doc st))
       (filter (\<lambda>i. truthy (data_lazy (doc st ! i))) (content (collectElements opts st))) \<and>
   (if matches_content (doc st ! i) \<and> \<not> truthy (data_lazy (doc st ! i)) \<and> i < length (doc st)
    then loadedClass opts \<in> set (classList (doc (loadAllImmediately opts st) ! i))
    else doc (loadAllImmediately opts st) ! i = doc st ! i) \<and>
   settle opts (Request j k url Swallow) Failure s = handleLoadError opts j s \<and>
   loadedClass opts \<in>
     set (classList (doc (settle opts (Request j KImage url Swallow) (Success html) s) ! j)) \<and>
   loadedClass opts \<in>
     set (classList (doc (settle opts (Request j KBackground url Swallow) (Success html) s) ! j))"
proof -
  let ?c = "collectElements opts st"
  let ?s2 = "fold (loadImage opts Swallow) (images ?c) ?c"
  let ?s3 = "fold (loadBackground opts Swallow) (backgrounds ?c) ?s2"
  let ?s4 = "fold (loadContent opts Swallow) (content ?c) ?s3"
  have s4: "loadAllImmediately opts st = ?s4"
    by (simp add: loadAllImmediately_def Let_def)
  have s3: "doc ?s3 = doc st" "observer ?s3 = observer st" "loadAttempts ?s3 = loadAttempts st"
    "pending ?s3 = pending st @
       map (image_request (doc st))
         (filter (\<lambda>i. truthy (js_or (data_src (doc st ! i)) (src (doc st ! i)))) (images ?c)) @
       map (background_request (doc st))
         (filter (\<lambda>i. truthy (data_bg (doc st ! i))) (backgrounds ?c))"
    by (simp_all add: fold_loadImage_swallow fold_loadBackground_swallow)
  note f = fold_loadContent_swallow[of opts "content ?c" ?s3]
  have mem: "i \<in> set (content ?c) \<longleftrightarrow> i < length (doc st) \<and> matches_content (doc st ! i)"
    by (auto simp: collectElements_def querySelectorAll_def)
  have a: "init opts False st = Inr (loadAllImmediately opts st)"
    by (simp add: init_def)
  have b: "observer (loadAllImmediately opts st) = observer st"
    "loadAttempts (loadAllImmediately opts st) = loadAttempts st"
    using f s3 by (simp_all add: s4)
  have c: "pending (loadAllImmediately opts st) =
     pending st @
     map (image_request (doc st))
       (filter (\<lambda>i. truthy (js_or (data_src (doc st ! i)) (src (doc st ! i)))) (images ?c)) @
     map (background_request (doc st))
       (filter (\<lambda>i. truthy (data_bg (doc st ! i))) (backgrounds ?c)) @
     map (content_request (doc st))
       (filter (\<lambda>i. truthy (data_lazy (doc st ! i))) (content ?c))"
    using f s3 by (simp add: s4)
  have d: "if matches_content (doc st ! i) \<and> \<not> truthy (data_lazy (doc st ! i)) \<and>
              i < length (doc st)
    then loadedClass opts \<in> set (classList (doc (loadAllImmediately opts st) ! i))
    else doc (loadAllImmediately opts st) ! i = doc st ! i"
  proof (cases "matches_content (doc st ! i) \<and> \<not> truthy (data_lazy (doc st ! i)) \<and>
              i < length (doc st)")
    case True
    then have "i \<in> set (content ?c) \<and> \<not> truthy (data_lazy (doc ?s3 ! i)) \<and> i < length (doc ?s3)"
      using mem s3(1) by simp
    then have "loadedClass opts \<in> set (classList (doc ?s4 ! i))"
      using f by blast
    then show ?thesis using True by (simp add: s4)
  next
    case False
    then have "\<not> (i \<in> set (content ?c) \<and> \<not> truthy (data_lazy (doc ?s3 ! i)))"
      using mem s3(1) by auto
    then have "doc ?s4 ! i = doc ?s3 ! i"
      using f by blast
    then have "doc (loadAllImmediately opts st) ! i = doc st ! i"
      using s3(1) by (simp add: s4)
    then show ?thesis using False by auto
  qed
  have e: "settle opts (Request j k url Swallow) Failure s = handleLoadError opts j s"
    by (simp add: settle_def loader_failed_def rejected_def)
  have g: "loadedClass opts \<in>
      set (classList (doc (settle opts (Request j KImage url Swallow) (Success html) s) ! j))"
    "loadedClass opts \<in>
      set (classList (doc (settle opts (Request j KBackground url Swallow) (Success html) s) ! j))"
    using assms
    by (simp_all add: settle_def imageLoader_onload_def background_onload_def
        onElementLoaded_elem(4))
  show ?thesis
    using a b c d e g by simp
qed


theorem fallback_init_witness:
  "init default_options False mixed_doc = Inr (loadAllImmediately default_options mixed_doc) \<and>
   observer (loadAllImmediately default_options mixed_doc) = None \<and>
   images (collectElements default_options mixed_doc) = [0, 4] \<and>
   backgrounds (collectElements default_options mixed_doc) = [1] \<and>
   content (collectElements default_options mixed_doc) = [2, 3] \<and>
   pending (loadAllImmediately default_options mixed_doc) =
     [Request 0 KImage ''a.jpg'' Swallow, Request 1 KBackground ''bg.png'' Swallow,
      Request 3 KContent ''/f.html'' Swallow] \<and>
   loadedClass default_options \<in>
     set (classList (doc (loadAllImmediately default_options mixed_doc) ! 2)) \<and>
   doc (loadAllImmediately default_options mixed_doc) ! 4 = doc mixed_doc ! 4 \<and>
   loadedClass default_options \<in>
     set (classList (doc (settle default_options (Request 0 KImage ''a.jpg'' Swallow)
        (Success []) (loadAllImmediately default_options mixed_doc)) ! 0))"
proof -
  let ?st' = "loadAllImmediately default_options mixed_doc"
  have len: "0 < length (doc ?st')"
    by (simp add: loadAllImmediately_shape mixed_doc_def fresh_def)
  have c: "images (collectElements default_options mixed_doc) = [0, 4]"
    "backgrounds (collectElements default_options mixed_doc) = [1]"
    "content (collectElements default_options mixed_doc) = [2, 3]"
    by code_simp+
  have o: "observer mixed_doc = None" "pending mixed_doc = []"
    by (simp_all add: mixed_doc_def fresh_def)
  have e: "matches_content (doc mixed_doc ! 2) \<and> \<not> truthy (data_lazy (doc mixed_doc ! 2)) \<and>
      2 < length (doc mixed_doc)"
    "\<not> matches_content (doc mixed_doc ! 4)"
    by (simp_all add: mixed_doc_def fresh_def placeholder_div_def lazy_img_def blank_def
        matches_content_def truthy_def)
  have u: "truthy (js_or (data_src (doc mixed_doc ! 0)) (src (doc mixed_doc ! 0)))"
    "\<not> truthy (js_or (data_src (doc mixed_doc ! 4)) (src (doc mixed_doc ! 4)))"
    "truthy (data_bg (doc mixed_doc ! 1))"
    "\<not> truthy (data_lazy (doc mixed_doc ! 2))" "truthy (data_lazy (doc mixed_doc ! 3))"
    "image_request (doc mixed_doc) 0 = Request 0 KImage ''a.jpg'' Swallow"
    "background_request (doc mixed_doc) 1 = Request 1 KBackground ''bg.png'' Swallow"
    "content_request (doc mixed_doc) 3 = Request 3 KContent ''/f.html'' Swallow"
    by (simp_all add: mixed_doc_def fresh_def placeholder_div_def lazy_img_def blank_def
        truthy_def js_or_def image_request_def background_request_def content_request_def)
  note t2 = fallback_init[OF len, of default_options mixed_doc 2 KImage "''a.jpg''" "[]"]
  note t4 = fallback_init[OF len, of default_options mixed_doc 4 KImage "''a.jpg''" "[]"]
  have r2: "loadedClass default_options \<in> set (classList (doc ?st' ! 2))"
    using t2 e(1) by simp
  have r4: "doc ?st' ! 4 = doc mixed_doc ! 4"
    using t4 e(2) by simp
  have p: "pending ?st' =
     [Request 0 KImage ''a.jpg'' Swallow, Request 1 KBackground ''bg.png'' Swallow,
      Request 3 KContent ''/f.html'' Swallow]"
    using t2 c o u by simp
  show ?thesis
    using t2 c o r2 r4 p by simp
qed

subsection \<open>The bound of the retry policy\<close>

lemma error_counts_append [simp]: "error_counts (a @ b) = error_counts a @ error_counts b"
  by (simp add: error_counts_def)

lemma error_counts_single [simp]:
  "error_counts [(t, Called j)] = []"
  "error_counts [(t, Scheduled k j d)] = []"
  "error_counts [(t, LazyLoaded j)] = []"
  "error_counts [(t, LazyError j n)] = [n]"
  by (simp_all add: error_counts_def)

lemma policy_inv_emit:
  assumes "policy_inv opts m st" and "case a of LazyError j n \<Rightarrow> n = retryAttempts opts + 1 | _ \<Rightarrow> True"
  shows "policy_inv opts m (emit a st)"
  using assms by (cases a) (auto simp: policy_inv_def bounded_def)

lemma bounded_cong: "loadAttempts st' = loadAttempts st \<Longrightarrow> bounded opts st' = bounded opts st"
  by (simp add: bounded_def get_attempts_def)

lemma policy_inv_cong:
  "loadAttempts st' = loadAttempts st \<Longrightarrow> trace st' = trace st \<Longrightarrow> policy_inv opts m st' = policy_inv opts m st"
  by (simp add: policy_inv_def bounded_cong[of st' st])

lemma policy_inv_handleLoadError:
  assumes "policy_inv opts m st"
  shows "policy_inv opts m (handleLoadError opts i st)"
proof (cases "get_attempts st (attemptKey (doc st ! i)) < retryAttempts opts")
  case True
  let ?k = "attemptKey (doc st ! i)"
  have b: "bounded opts (handleLoadError opts i st)"
    using assms True
    by (auto simp: policy_inv_def bounded_def handleLoadError_retry(2) get_attempts_def)
  show ?thesis
    using assms b True by (simp add: policy_inv_def handleLoadError_retry(4))
next
  case False
  have "get_attempts st (attemptKey (doc st ! i)) \<le> retryAttempts opts"
    using assms by (simp add: policy_inv_def bounded_def)
  then have eq: "get_attempts st (attemptKey (doc st ! i)) = retryAttempts opts"
    using False by simp
  have b: "bounded opts (handleLoadError opts i st) = bounded opts st"
    by (rule bounded_cong) (simp add: handleLoadError_terminal(1)[OF False])
  show ?thesis
    using assms b eq by (simp add: policy_inv_def handleLoadError_terminal(3)[OF False])
qed

lemma policy_inv_onElementLoaded: "policy_inv opts m st \<Longrightarrow> policy_inv opts m (onElementLoaded opts i st)"
  by (simp add: policy_inv_def bounded_cong[of "onElementLoaded opts i st" st])

lemma policy_inv_rejected: "policy_inv opts m st \<Longrightarrow> policy_inv opts m (rejected opts h i st)"
  by (cases h) (simp_all add: rejected_def policy_inv_handleLoadError)

lemma policy_inv_pending [simp]: "policy_inv opts m (st\<lparr>pending := p\<rparr>) = policy_inv opts m st"
  by (rule policy_inv_cong) simp_all

lemma policy_inv_loaders:
  assumes "policy_inv opts m st"
  shows "policy_inv opts m (loadImage opts h i st)"
    and "policy_inv opts m (loadBackground opts h i st)"
    and "policy_inv opts m (loadContent opts h i st)"
  using assms
  by (simp_all add: loadImage_def loadBackground_def loadContent_def Let_def policy_inv_rejected
      policy_inv_onElementLoaded)

lemma policy_inv_loadElement: "policy_inv opts m st \<Longrightarrow> policy_inv opts m (loadElement opts i st)"
  by (simp add: loadElement_def Let_def policy_inv_loaders policy_inv_emit)

lemma policy_inv_upd_elem [simp]: "policy_inv opts m (upd_elem i f st) = policy_inv opts m st"
  by (rule policy_inv_cong) simp_all

lemma policy_inv_observe [simp]: "policy_inv opts m (observe i st) = policy_inv opts m st"
  by (rule policy_inv_cong) simp_all

lemma policy_inv_unobserve [simp]: "policy_inv opts m (unobserve i st) = policy_inv opts m st"
  by (rule policy_inv_cong) simp_all

lemma policy_inv_process_each: "policy_inv opts m st \<Longrightarrow> policy_inv opts m (state_of (process_each opts xs st))"
  by (induction xs arbitrary: st) (simp_all add: state_of_def)

lemma policy_inv_observe_each: "policy_inv opts m st \<Longrightarrow> policy_inv opts m (state_of (observe_each opts xs st))"
  by (induction xs arbitrary: st) (simp_all add: state_of_def)

lemma policy_inv_loader_failed: "policy_inv opts m st \<Longrightarrow> policy_inv opts m (loader_failed opts h i st)"
  by (simp add: loader_failed_def policy_inv_rejected policy_inv_handleLoadError)

lemma policy_inv_content_loaded:
  assumes "policy_inv opts m st"
  shows "policy_inv opts m (content_loaded opts h i html st)"
proof -
  let ?n = "length (doc st)"
  let ?s1 = "upd_elem i (\<lambda>e. e\<lparr>inner := [?n..<?n + length html], data_lazy := None\<rparr>)
               (st\<lparr>doc := doc st @ html\<rparr>)"
  have "policy_inv opts m (st\<lparr>doc := doc st @ html\<rparr>)"
    using assms policy_inv_cong[of "st\<lparr>doc := doc st @ html\<rparr>" st] by simp
  then have k1: "policy_inv opts m ?s1" by simp
  have k2: "policy_inv opts m (state_of (processNewContent opts i ?s1))"
    unfolding processNewContent_def Let_def using k1 by (rule policy_inv_process_each)
  show ?thesis
  proof (cases "processNewContent opts i ?s1")
    case (Inl a)
    obtain err st2 where a: "a = (err, st2)" by (cases a)
    then have "policy_inv opts m st2" using k2 Inl by (simp add: state_of_def)
    then show ?thesis
      using Inl a by (simp add: content_loaded_def Let_def policy_inv_loader_failed)
  next
    case (Inr st2)
    then have "policy_inv opts m st2" using k2 by (simp add: state_of_def)
    then show ?thesis
      using Inr by (simp add: content_loaded_def Let_def policy_inv_onElementLoaded)
  qed
qed

lemma policy_inv_settle: "policy_inv opts m st \<Longrightarrow> policy_inv opts m (settle opts r out st)"
  by (cases r; cases out)
     (auto simp: settle_def policy_inv_loader_failed policy_inv_content_loaded imageLoader_onload_def
        background_onload_def policy_inv_onElementLoaded split: kind.splits)

lemma policy_inv_complete: "policy_inv opts m st \<Longrightarrow> policy_inv opts m (complete opts n out st)"
  by (simp add: complete_def policy_inv_settle)

lemma policy_inv_handleIntersection:
  "policy_inv opts m st \<Longrightarrow> policy_inv opts m (state_of (handleIntersection opts es st))"
proof (induction es arbitrary: st)
  case Nil
  then show ?case by (simp add: state_of_def)
next
  case (Cons e es)
  obtain t b where e: "e = (t, b)" by (cases e)
  have "policy_inv opts m (unobserve t (loadElement opts t st))"
    using Cons.prems by (simp add: policy_inv_loadElement)
  from Cons.IH[OF this] Cons.IH[OF Cons.prems] Cons.prems show ?case
    by (auto simp: e Let_def state_of_def policy_inv_loadElement)
qed

lemma policy_inv_fold_loaders:
  assumes "policy_inv opts m st"
  shows "policy_inv opts m (fold (loadImage opts h) xs st)"
    and "policy_inv opts m (fold (loadBackground opts h) xs st)"
    and "policy_inv opts m (fold (loadContent opts h) xs st)"
  using assms by (induction xs arbitrary: st) (simp_all add: policy_inv_loaders)

lemma policy_inv_collect [simp]: "policy_inv opts m (collectElements opts st) = policy_inv opts m st"
  by (rule policy_inv_cong) simp_all

lemma policy_inv_loadAllImmediately: "policy_inv opts m st \<Longrightarrow> policy_inv opts m (loadAllImmediately opts st)"
  by (simp add: loadAllImmediately_def Let_def policy_inv_fold_loaders)

lemma policy_inv_loadAll: "policy_inv opts m st \<Longrightarrow> policy_inv opts m (loadAll opts st)"
proof -
  have "policy_inv opts m s \<Longrightarrow> policy_inv opts m (fold (\<lambda>i s. loadElement opts i (unobserve i s)) xs s)" for xs s
    by (induction xs arbitrary: s) (simp_all add: policy_inv_loadElement)
  then show "policy_inv opts m st \<Longrightarrow> policy_inv opts m (loadAll opts st)"
    by (simp add: loadAll_def Let_def)
qed

lemma policy_inv_fire: "policy_inv opts m st \<Longrightarrow> policy_inv opts m (fire opts n st)"
proof -
  assume k: "policy_inv opts m st"
  have "policy_inv opts m (st\<lparr>timers := ts\<rparr>)" for ts
    using k policy_inv_cong[of "st\<lparr>timers := ts\<rparr>" st] by simp
  then show ?thesis
    using k by (simp add: fire_def run_task_def policy_inv_loadElement split: task.splits)
qed

lemma policy_inv_animationFrame: "policy_inv opts m st \<Longrightarrow> policy_inv opts m (animationFrame st)"
proof -
  have "policy_inv opts m (fold (\<lambda>i. upd_elem i f) xs s) = policy_inv opts m s" for f xs s
    by (induction xs arbitrary: s) simp_all
  moreover have "policy_inv opts m (st\<lparr>frames := []\<rparr>) = policy_inv opts m st"
    by (rule policy_inv_cong) simp_all
  ultimately show "policy_inv opts m st \<Longrightarrow> policy_inv opts m (animationFrame st)"
    by (simp add: animationFrame_def)
qed

lemma policy_inv_step:
  assumes "policy_inv opts m st" and "ev \<noteq> EvDestroy"
  shows "policy_inv opts m (step opts st ev)"
proof (cases ev)
  case (EvInit b)
  have "policy_inv opts m (setupObserver st)"
    using assms(1) policy_inv_cong[of "setupObserver st" st] by (simp add: setupObserver_def)
  then show ?thesis
    using EvInit assms(1)
    by (simp add: init_def observeElements_def policy_inv_observe_each policy_inv_loadAllImmediately
        state_of_def[of "Inr _"])
next
  case (EvIntersect es)
  then show ?thesis using assms(1) by (simp add: policy_inv_handleIntersection)
next
  case (EvComplete n out)
  then show ?thesis using assms(1) by (simp add: policy_inv_complete)
next
  case (EvFire n)
  then show ?thesis using assms(1) by (simp add: policy_inv_fire)
next
  case EvFrame
  then show ?thesis using assms(1) by (simp add: policy_inv_animationFrame)
next
  case (EvTick d)
  then show ?thesis using assms(1) policy_inv_cong[of "tick d st" st] by (simp add: tick_def)
next
  case EvRefresh
  have "policy_inv opts m (disconnect st)"
    using assms(1) policy_inv_cong[of "disconnect st" st] by (simp add: disconnect_def)
  then show ?thesis
    using EvRefresh by (simp add: refresh_def observeElements_def policy_inv_observe_each)
next
  case (EvLoadNow i)
  then show ?thesis using assms(1) by (simp add: loadNow_def policy_inv_loadElement)
next
  case EvLoadAll
  then show ?thesis using assms(1) by (simp add: policy_inv_loadAll)
next
  case EvDestroy
  then show ?thesis using assms(2) by simp
qed

lemma policy_inv_run:
  assumes "policy_inv opts m st" and "EvDestroy \<notin> set evs"
  shows "policy_inv opts m (run opts st evs)"
  using assms
proof (induction evs arbitrary: st)
  case Nil
  then show ?case by (simp add: run_def)
next
  case (Cons ev evs)
  then have "policy_inv opts m (step opts st ev)"
    using policy_inv_step[of opts m st ev] by auto
  then have "policy_inv opts m (run opts (step opts st ev) evs)"
    using Cons by simp
  then show ?case by (simp add: run_def)
qed

lemma errored_append [simp]: "errored i (tr @ tr') = (errored i tr \<or> errored i tr')"
  by (simp add: errored_def)

lemma errored_single [simp]:
  "errored i [(t, Called j)] = False"
  "errored i [(t, Scheduled k j d)] = False"
  "errored i [(t, LazyLoaded j)] = False"
  "errored i [(t, LazyError j n)] = (j = i)"
  by (simp_all add: errored_def is_error_def)

lemma cbe_errored: "errored i tr \<Longrightarrow> calls_before_error i (tr @ tr') = calls_before_error i tr"
proof -
  assume "errored i tr"
  then obtain x where "x \<in> set tr" "\<not> \<not> is_error i (snd x)"
    by (auto simp: errored_def list_ex_iff)
  then have "takeWhile (\<lambda>p. \<not> is_error i (snd p)) (tr @ tr') =
             takeWhile (\<lambda>p. \<not> is_error i (snd p)) tr"
    by (rule takeWhile_append1)
  then show ?thesis by (simp add: calls_before_error_def)
qed

lemma cbe_clean: "\<not> errored i tr \<Longrightarrow> calls_before_error i (tr @ tr') = calls i tr + calls_before_error i tr'"
proof -
  assume "\<not> errored i tr"
  then have "\<And>x. x \<in> set tr \<Longrightarrow> \<not> is_error i (snd x)"
    by (auto simp: errored_def list_ex_iff)
  then have "takeWhile (\<lambda>p. \<not> is_error i (snd p)) (tr @ tr') =
             tr @ takeWhile (\<lambda>p. \<not> is_error i (snd p)) tr'"
    by (rule takeWhile_append2)
  then show ?thesis by (simp add: calls_before_error_def)
qed

lemma cbe_single [simp]:
  "calls_before_error i [(t, Called j)] = (if i = j then 1 else 0)"
  "calls_before_error i [(t, Scheduled k j d)] = 0"
  "calls_before_error i [(t, LazyLoaded j)] = 0"
  "calls_before_error i [(t, LazyError j n)] = 0"
  by (simp_all add: calls_before_error_def is_error_def)

lemma cbe_calls: "\<not> errored i tr \<Longrightarrow> calls_before_error i tr = calls i tr"
  using cbe_clean[of i tr "[]"] by (simp add: calls_before_error_def)

lemma attempt_inv_cong:
  assumes "length (doc st') = length (doc st)"
    and "attemptKey (doc st' ! i) = attemptKey (doc st ! i)"
    and "retries_waiting i st' = retries_waiting i st"
    and "trace st' = trace st" and "loadAttempts st' = loadAttempts st"
  shows "attempt_inv opts i k0 c0 b st' = attempt_inv opts i k0 c0 b st"
  using assms by (simp add: attempt_inv_def get_attempts_def)

lemma retries_waiting_frame [simp]:
  "retries_waiting i (upd_elem x f st) = retries_waiting i st"
  "retries_waiting i (emit a st) = retries_waiting i st"
  "retries_waiting i (observe x st) = retries_waiting i st"
  "retries_waiting i (unobserve x st) = retries_waiting i st"
  "retries_waiting i (st\<lparr>pending := p\<rparr>) = retries_waiting i st"
  "retries_waiting i (st\<lparr>frames := fs\<rparr>) = retries_waiting i st"
  "retries_waiting i (setTimeout (ClearStyle x) d st) = retries_waiting i st"
  "retries_waiting i (setTimeout (Retry x) d st) = retries_waiting i st + (if x = i then 1 else 0)"
  by (simp_all add: retries_waiting_def setTimeout_def)

lemma attempt_inv_weaken: "attempt_inv opts i k0 c0 (Suc b) st \<Longrightarrow> attempt_inv opts i k0 c0 b st"
  by (auto simp: attempt_inv_def)

lemma attempt_inv_upd_elem:
  assumes "\<And>e. attemptKey (f e) = attemptKey e"
  shows "attempt_inv opts i k0 c0 b (upd_elem x f st) = attempt_inv opts i k0 c0 b st"
  by (rule attempt_inv_cong) (simp_all add: doc_upd_elem_cases assms)

lemma attempt_inv_upd_other: "x \<noteq> i \<Longrightarrow> attempt_inv opts i k0 c0 b (upd_elem x f st) = attempt_inv opts i k0 c0 b st"
  by (rule attempt_inv_cong) (simp_all add: doc_upd_elem_cases)

lemma attemptKey_fields [simp]:
  "attemptKey (e\<lparr>style_opacity := a\<rparr>) = attemptKey e"
  "attemptKey (e\<lparr>style_transition := b\<rparr>) = attemptKey e"
  "attemptKey (e\<lparr>inner := c\<rparr>) = attemptKey e"
  "attemptKey (e\<lparr>data_lazy := d\<rparr>) = attemptKey e"
  by (simp_all add: attemptKey_def)

lemma attempt_inv_simple [simp]:
  "attempt_inv opts i k0 c0 b (st\<lparr>pending := p\<rparr>) = attempt_inv opts i k0 c0 b st"
  "attempt_inv opts i k0 c0 b (st\<lparr>frames := fs\<rparr>) = attempt_inv opts i k0 c0 b st"
  "attempt_inv opts i k0 c0 b (observe x st) = attempt_inv opts i k0 c0 b st"
  "attempt_inv opts i k0 c0 b (unobserve x st) = attempt_inv opts i k0 c0 b st"
  "attempt_inv opts i k0 c0 b (collectElements opts st) = attempt_inv opts i k0 c0 b st"
  "attempt_inv opts i k0 c0 b (setTimeout (ClearStyle x) d st) = attempt_inv opts i k0 c0 b st"
  by (rule attempt_inv_cong; simp add: retries_waiting_def collectElements_def)+

lemma attempt_inv_emit:
  assumes "attempt_inv opts i k0 c0 b st" and "\<not> is_error i a" and "a \<noteq> Called i"
  shows "attempt_inv opts i k0 c0 b (emit a st)"
proof -
  have c: "calls i [(now st, a)] = 0" "errored i [(now st, a)] = False"
    "calls_before_error i [(now st, a)] = 0"
    using assms(2,3) by (cases a; simp add: is_error_def)+
  show ?thesis
  proof (cases "errored i (trace st)")
    case True
    then show ?thesis using assms(1) by (simp add: attempt_inv_def cbe_errored)
  next
    case False
    then show ?thesis using assms(1) c by (simp add: attempt_inv_def)
  qed
qed

lemma attempt_inv_call:
  assumes "attempt_inv opts i k0 c0 (Suc b) st" and "bounded opts st"
  shows "attempt_inv opts i k0 c0 b (emit (Called i) st)"
proof (cases "errored i (trace st)")
  case True
  then show ?thesis using assms(1) by (simp add: attempt_inv_def cbe_errored)
next
  case False
  then show ?thesis using assms(1) by (simp add: attempt_inv_def)
qed

lemma attempt_inv_onElementLoaded:
  "attempt_inv opts i k0 c0 b st \<Longrightarrow> attempt_inv opts i k0 c0 b (onElementLoaded opts j st)"
  by (simp add: onElementLoaded_def Let_def attempt_inv_emit is_error_def attempt_inv_upd_elem)

lemma attempt_inv_handleLoadError:
  assumes j: "attempt_inv opts i k0 c0 b st" and bd: "bounded opts st"
  shows "attempt_inv opts i k0 c0 b (handleLoadError opts x st)"
proof (cases "get_attempts st (attemptKey (doc st ! x)) < retryAttempts opts")
  case True
  let ?k = "attemptKey (doc st ! x)"
  let ?s' = "handleLoadError opts x st"
  note r = handleLoadError_retry[OF True]
  have rw: "retries_waiting i ?s' = retries_waiting i st + (if x = i then 1 else 0)"
    by (simp add: retries_waiting_def r(3))
  have ga: "get_attempts ?s' k0 = (if k0 = ?k then get_attempts st ?k + 1 else get_attempts st k0)"
    by (simp add: get_attempts_def r(2))
  show ?thesis
  proof (cases "errored i (trace st)")
    case e: True
    then show ?thesis using j by (simp add: attempt_inv_def r cbe_errored)
  next
    case e: False
    then have key: "attemptKey (doc st ! i) = k0"
      and le: "calls i (trace st) + retries_waiting i st + c0 + b \<le> 1 + get_attempts st k0"
      using j by (simp_all add: attempt_inv_def)
    show ?thesis
      using j e key le rw ga by (auto simp: attempt_inv_def r(1,4))
  qed
next
  case False
  let ?s' = "handleLoadError opts x st"
  note t = handleLoadError_terminal[OF False]
  have len: "length (doc ?s') = length (doc st)" by simp
  have rw: "retries_waiting i ?s' = retries_waiting i st"
    by (simp add: retries_waiting_def t(2))
  have ga: "get_attempts ?s' = get_attempts st"
    by (simp add: get_attempts_def t(1) fun_eq_iff)
  show ?thesis
  proof (cases "errored i (trace st)")
    case e: True
    then show ?thesis using j by (simp add: attempt_inv_def t(3) cbe_errored)
  next
    case e: False
    then have key: "attemptKey (doc st ! i) = k0"
      and le: "calls i (trace st) + retries_waiting i st + c0 + b \<le> 1 + get_attempts st k0"
      and il: "i < length (doc st)"
      using j by (simp_all add: attempt_inv_def)
    show ?thesis
    proof (cases "x = i")
      case True
      have "get_attempts st k0 \<le> retryAttempts opts"
        using bd by (simp add: bounded_def)
      then have "calls i (trace st) + c0 \<le> retryAttempts opts + 1"
        using le by simp
      then show ?thesis
        using True e il t(3) len by (simp add: attempt_inv_def cbe_clean cbe_calls)
    next
      case False
      then have "doc ?s' ! i = doc st ! i"
        using t(4)[of i] by simp
      then show ?thesis
        using False e key le il rw ga by (simp add: attempt_inv_def t(3))
    qed
  qed
qed

lemma bounded_frame [simp]:
  "bounded opts (emit a st) = bounded opts st"
  "bounded opts (upd_elem x f st) = bounded opts st"
  "bounded opts (observe x st) = bounded opts st"
  "bounded opts (unobserve x st) = bounded opts st"
  "bounded opts (st\<lparr>pending := p\<rparr>) = bounded opts st"
  "bounded opts (st\<lparr>timers := ts\<rparr>) = bounded opts st"
  "bounded opts (st\<lparr>doc := d\<rparr>) = bounded opts st"
  by (rule bounded_cong; simp)+

lemma bounded_policy_inv: "bounded opts st \<Longrightarrow> policy_inv opts (length (trace st)) st"
  by (simp add: policy_inv_def error_counts_def)

lemma policy_inv_bounded: "policy_inv opts m st \<Longrightarrow> bounded opts st"
  by (simp add: policy_inv_def)

lemma bounded_handleLoadError:
  "bounded opts st \<Longrightarrow> bounded opts (handleLoadError opts x st)"
  by (rule policy_inv_bounded[OF policy_inv_handleLoadError[OF bounded_policy_inv]])

lemma attempt_inv_rejected:
  "attempt_inv opts i k0 c0 b st \<Longrightarrow> bounded opts st \<Longrightarrow> attempt_inv opts i k0 c0 b (rejected opts h x st)"
  by (cases h) (simp_all add: rejected_def attempt_inv_handleLoadError)

lemma attempt_inv_loaders:
  assumes "attempt_inv opts i k0 c0 b st" and "bounded opts st"
  shows "attempt_inv opts i k0 c0 b (loadImage opts h x st)"
    and "attempt_inv opts i k0 c0 b (loadBackground opts h x st)"
    and "attempt_inv opts i k0 c0 b (loadContent opts h x st)"
  using assms
  by (simp_all add: loadImage_def loadBackground_def loadContent_def Let_def attempt_inv_rejected
      attempt_inv_onElementLoaded)

lemma attempt_inv_load:
  assumes "attempt_inv opts i k0 c0 b st" and "bounded opts st"
  shows "attempt_inv opts i k0 c0 b
     (if tagName (doc st0 ! x) = ''IMG'' then loadImage opts Rehandle x st
      else if truthy (data_bg (doc st0 ! x)) then loadBackground opts Rehandle x st
      else if truthy (data_lazy (doc st0 ! x)) then loadContent opts Rehandle x st
      else st)"
  using assms by (simp add: attempt_inv_loaders)

lemma attempt_inv_loadElement_other:
  assumes "attempt_inv opts i k0 c0 b st" and "bounded opts st" and "x \<noteq> i"
  shows "attempt_inv opts i k0 c0 b (loadElement opts x st)"
proof -
  have "attempt_inv opts i k0 c0 b (emit (Called x) st)"
    using assms by (intro attempt_inv_emit) (simp_all add: is_error_def)
  moreover have "bounded opts (emit (Called x) st)"
    using assms(2) by simp
  ultimately show ?thesis
    unfolding loadElement_def Let_def by (rule attempt_inv_load)
qed

lemma attempt_inv_loadElement_self:
  assumes "attempt_inv opts i k0 c0 (Suc b) st" and "bounded opts st"
  shows "attempt_inv opts i k0 c0 b (loadElement opts i st)"
proof -
  have "attempt_inv opts i k0 c0 b (emit (Called i) st)"
    using assms by (rule attempt_inv_call)
  moreover have "bounded opts (emit (Called i) st)"
    using assms(2) by simp
  ultimately show ?thesis
    unfolding loadElement_def Let_def by (rule attempt_inv_load)
qed

lemma attempt_inv_loadElement_any:
  assumes "attempt_inv opts i k0 c0 (Suc b) st" and "bounded opts st"
  shows "attempt_inv opts i k0 c0 b (loadElement opts x st)"
  using assms attempt_inv_loadElement_self attempt_inv_loadElement_other[OF attempt_inv_weaken] by (cases "x = i") auto

lemma retries_waiting_remove:
  assumes "n < length (timers st)"
  shows "retries_waiting i (st\<lparr>timers := take n (timers st) @ drop (Suc n) (timers st)\<rparr>) +
           (if snd (timers st ! n) = Retry i then 1 else 0) = retries_waiting i st"
proof -
  have "timers st = take n (timers st) @ timers st ! n # drop (Suc n) (timers st)"
    using assms by (simp add: id_take_nth_drop)
  then have "filter (\<lambda>p. snd p = Retry i) (timers st) =
      filter (\<lambda>p. snd p = Retry i) (take n (timers st)) @
      filter (\<lambda>p. snd p = Retry i) [timers st ! n] @
      filter (\<lambda>p. snd p = Retry i) (drop (Suc n) (timers st))"
    by (metis append_Cons append_Nil filter_append)
  then show ?thesis
    by (simp add: retries_waiting_def)
qed

lemma attempt_inv_fire:
  assumes j: "attempt_inv opts i k0 c0 0 st" and bd: "bounded opts st"
  shows "attempt_inv opts i k0 c0 0 (fire opts n st)"
proof (cases "n < length (timers st) \<and> fst (timers st ! n) \<le> now st")
  case False
  then have "fire opts n st = st" by (auto simp: fire_def)
  then show ?thesis using j by simp
next
  case True
  let ?s = "st\<lparr>timers := take n (timers st) @ drop (Suc n) (timers st)\<rparr>"
  note rm = retries_waiting_remove[of n st i]
  have bs: "bounded opts ?s" using bd by simp
  show ?thesis
  proof (cases "snd (timers st ! n)")
    case (Retry x)
    show ?thesis
    proof (cases "x = i")
      case True
      have "attempt_inv opts i k0 c0 (Suc 0) ?s"
        using j rm \<open>n < length (timers st) \<and> fst (timers st ! n) \<le> now st\<close> Retry True
        by (auto simp: attempt_inv_def get_attempts_def)
      then have "attempt_inv opts i k0 c0 0 (loadElement opts i ?s)"
        using bs by (rule attempt_inv_loadElement_self)
      then show ?thesis
        using \<open>n < length (timers st) \<and> fst (timers st ! n) \<le> now st\<close> Retry True
        by (simp add: fire_def run_task_def)
    next
      case False
      have "attempt_inv opts i k0 c0 0 ?s"
        using j rm \<open>n < length (timers st) \<and> fst (timers st ! n) \<le> now st\<close> Retry False
        by (auto simp: attempt_inv_def get_attempts_def)
      then have "attempt_inv opts i k0 c0 0 (loadElement opts x ?s)"
        using bs False by (rule attempt_inv_loadElement_other)
      then show ?thesis
        using \<open>n < length (timers st) \<and> fst (timers st ! n) \<le> now st\<close> Retry
        by (simp add: fire_def run_task_def)
    qed
  next
    case (ClearStyle x)
    have "attempt_inv opts i k0 c0 0 ?s"
      using j rm True ClearStyle by (auto simp: attempt_inv_def get_attempts_def)
    then show ?thesis
      using True ClearStyle by (simp add: fire_def run_task_def attempt_inv_upd_elem)
  qed
qed

lemma attempt_inv_loader_failed:
  "attempt_inv opts i k0 c0 b st \<Longrightarrow> bounded opts st \<Longrightarrow> attempt_inv opts i k0 c0 b (loader_failed opts h x st)"
  by (simp add: loader_failed_def attempt_inv_rejected attempt_inv_handleLoadError bounded_handleLoadError)

lemma attempt_inv_process_each:
  "attempt_inv opts i k0 c0 b st \<Longrightarrow> attempt_inv opts i k0 c0 b (state_of (process_each opts xs st))"
  by (induction xs arbitrary: st) (simp_all add: state_of_def attempt_inv_upd_elem)

lemma attempt_inv_observe_each:
  "attempt_inv opts i k0 c0 b st \<Longrightarrow> attempt_inv opts i k0 c0 b (state_of (observe_each opts xs st))"
  by (induction xs arbitrary: st) (simp_all add: state_of_def attempt_inv_upd_elem)

lemma bounded_state_of_process:
  "bounded opts st \<Longrightarrow> bounded opts (state_of (process_each opts xs st))"
  by (induction xs arbitrary: st) (simp_all add: state_of_def)

lemma attempt_inv_content_loaded:
  assumes j: "attempt_inv opts i k0 c0 b st" and bd: "bounded opts st"
  shows "attempt_inv opts i k0 c0 b (content_loaded opts h x html st)"
proof -
  let ?n = "length (doc st)"
  let ?s0 = "st\<lparr>doc := doc st @ html\<rparr>"
  let ?s1 = "upd_elem x (\<lambda>e. e\<lparr>inner := [?n..<?n + length html], data_lazy := None\<rparr>) ?s0"
  have il: "i < length (doc st)" using j by (simp add: attempt_inv_def)
  have "retries_waiting i ?s0 = retries_waiting i st" "get_attempts ?s0 = get_attempts st"
    by (simp_all add: retries_waiting_def get_attempts_def fun_eq_iff)
  then have "attempt_inv opts i k0 c0 b ?s0"
    using j il by (auto simp: attempt_inv_def nth_append)
  then have j1: "attempt_inv opts i k0 c0 b ?s1"
    by (simp add: attempt_inv_upd_elem)
  have b1: "bounded opts ?s1" using bd by simp
  have j2: "attempt_inv opts i k0 c0 b (state_of (processNewContent opts x ?s1))"
    unfolding processNewContent_def Let_def using j1 by (rule attempt_inv_process_each)
  have b2: "bounded opts (state_of (processNewContent opts x ?s1))"
    unfolding processNewContent_def Let_def using b1 by (rule bounded_state_of_process)
  show ?thesis
  proof (cases "processNewContent opts x ?s1")
    case (Inl a)
    obtain err st2 where a: "a = (err, st2)" by (cases a)
    then have "attempt_inv opts i k0 c0 b st2" "bounded opts st2"
      using j2 b2 Inl by (simp_all add: state_of_def)
    then show ?thesis
      using Inl a by (simp add: content_loaded_def Let_def attempt_inv_loader_failed)
  next
    case (Inr st2)
    then have "attempt_inv opts i k0 c0 b st2" using j2 by (simp add: state_of_def)
    then show ?thesis
      using Inr by (simp add: content_loaded_def Let_def attempt_inv_onElementLoaded)
  qed
qed

lemma attempt_inv_settle:
  assumes j: "attempt_inv opts i k0 c0 b st" and bd: "bounded opts st"
    and ok: "req_elem r = i \<longrightarrow> out = Failure"
  shows "attempt_inv opts i k0 c0 b (settle opts r out st)"
proof (cases r)
  case (Request x k url h)
  show ?thesis
  proof (cases out)
    case Failure
    then show ?thesis using Request j bd by (simp add: settle_def attempt_inv_loader_failed)
  next
    case (Success html)
    then have ne: "x \<noteq> i" using ok Request by (auto simp: req_elem_def)
    show ?thesis
    proof (cases k)
      case KImage
      then show ?thesis
        using Request Success j ne
        by (simp add: settle_def imageLoader_onload_def attempt_inv_onElementLoaded attempt_inv_upd_other)
    next
      case KBackground
      then show ?thesis
        using Request Success j ne
        by (simp add: settle_def background_onload_def attempt_inv_onElementLoaded attempt_inv_upd_other)
    next
      case KContent
      then show ?thesis
        using Request Success j bd by (simp add: settle_def attempt_inv_content_loaded)
    qed
  qed
qed

lemma attempt_inv_complete:
  assumes "attempt_inv opts i k0 c0 b st" and "bounded opts st"
    and "n < length (pending st) \<and> req_elem (pending st ! n) = i \<longrightarrow> out = Failure"
  shows "attempt_inv opts i k0 c0 b (complete opts n out st)"
  using assms by (simp add: complete_def attempt_inv_settle)

lemma bounded_loadElement: "bounded opts st \<Longrightarrow> bounded opts (loadElement opts x st)"
  by (rule policy_inv_bounded[OF policy_inv_loadElement[OF bounded_policy_inv]])

lemma attempt_inv_handleIntersection:
  assumes "attempt_inv opts i k0 c0 b st" and "bounded opts st" and "(i, True) \<notin> set es"
  shows "attempt_inv opts i k0 c0 b (state_of (handleIntersection opts es st))"
  using assms
proof (induction es arbitrary: st)
  case Nil
  then show ?case by (simp add: state_of_def)
next
  case (Cons e es)
  obtain t q where e: "e = (t, q)" by (cases e)
  have rest: "(i, True) \<notin> set es" using Cons.prems(3) by simp
  show ?case
  proof (cases q)
    case False
    then show ?thesis using e Cons.IH[OF Cons.prems(1,2) rest] by simp
  next
    case True
    then have ne: "t \<noteq> i" using Cons.prems(3) e by auto
    let ?s = "loadElement opts t st"
    have j1: "attempt_inv opts i k0 c0 b ?s"
      using Cons.prems(1,2) ne by (rule attempt_inv_loadElement_other)
    have b1: "bounded opts ?s"
      using Cons.prems(2) by (rule bounded_loadElement)
    have "attempt_inv opts i k0 c0 b (state_of (handleIntersection opts es (unobserve t ?s)))"
      using j1 b1 rest by (intro Cons.IH) simp_all
    then show ?thesis
      using e True j1 by (auto simp: Let_def state_of_def)
  qed
qed

lemma attempt_inv_step:
  assumes j: "attempt_inv opts i k0 c0 0 st" and bd: "bounded opts st" and ok: "allowed i st ev"
  shows "attempt_inv opts i k0 c0 0 (step opts st ev)"
proof (cases ev)
  case (EvInit q)
  then have "q" using ok by (simp add: allowed_def)
  have "attempt_inv opts i k0 c0 0 (setupObserver st)"
    using j attempt_inv_cong[of "setupObserver st" st] by (simp add: setupObserver_def retries_waiting_def)
  then show ?thesis
    using EvInit \<open>q\<close> by (simp add: init_def observeElements_def attempt_inv_observe_each)
next
  case (EvIntersect es)
  then show ?thesis using j bd ok by (simp add: allowed_def attempt_inv_handleIntersection)
next
  case (EvComplete n out)
  then show ?thesis using j bd ok by (simp add: allowed_def attempt_inv_complete)
next
  case (EvFire n)
  then show ?thesis using j bd by (simp add: attempt_inv_fire)
next
  case EvFrame
  have "attempt_inv opts i k0 c0 0 (fold (\<lambda>x. upd_elem x (\<lambda>e. e\<lparr>style_opacity := ''1''\<rparr>)) xs s) =
        attempt_inv opts i k0 c0 0 s" for xs s
    by (induction xs arbitrary: s) (simp_all add: attempt_inv_upd_elem)
  then show ?thesis using EvFrame j by (simp add: animationFrame_def)
next
  case (EvTick d)
  then show ?thesis
    using j attempt_inv_cong[of "tick d st" st] by (simp add: tick_def retries_waiting_def)
next
  case EvRefresh
  have "attempt_inv opts i k0 c0 0 (disconnect st)"
    using j attempt_inv_cong[of "disconnect st" st] by (simp add: disconnect_def retries_waiting_def)
  then show ?thesis
    using EvRefresh by (simp add: refresh_def observeElements_def attempt_inv_observe_each)
next
  case (EvLoadNow x)
  then have "x \<noteq> i" using ok by (simp add: allowed_def)
  then show ?thesis
    using EvLoadNow j bd by (simp add: loadNow_def attempt_inv_loadElement_other)
next
  case EvLoadAll
  then show ?thesis using ok by (simp add: allowed_def)
next
  case EvDestroy
  then show ?thesis using ok by (simp add: allowed_def)
qed

lemma allowed_not_destroy: "allowed i st ev \<Longrightarrow> ev \<noteq> EvDestroy"
  by (auto simp: allowed_def)

lemma attempt_inv_run:
  assumes "attempt_inv opts i k0 c0 0 st" and "policy_inv opts m st" and "failing opts i st evs"
  shows "attempt_inv opts i k0 c0 0 (run opts st evs)"
  using assms
proof (induction evs arbitrary: st)
  case Nil
  then show ?case by (simp add: run_def)
next
  case (Cons ev evs)
  have ok: "allowed i st ev" and rest: "failing opts i (step opts st ev) evs"
    using Cons.prems(3) by simp_all
  have bd: "bounded opts st" using Cons.prems(2) by (simp add: policy_inv_def)
  have j: "attempt_inv opts i k0 c0 0 (step opts st ev)"
    using Cons.prems(1) bd ok by (rule attempt_inv_step)
  have k: "policy_inv opts m (step opts st ev)"
    using Cons.prems(2) allowed_not_destroy[OF ok] by (rule policy_inv_step)
  show ?case
    using Cons.IH[OF j k rest] by (simp add: run_def)
qed

text \<open>
  Claim C1 fails as stated: the second image is passed to \<^verbatim>\<open>loadElement\<close> once, and
  its \<^verbatim>\<open>lazyError\<close> carries \<^verbatim>\<open>attempts: 3\<close>, the failures recorded under the URL it
  shares plus one.
\<close>

theorem attempts_counterexample:
  "trace shared_url_run =
     [(0, Called 0), (0, Scheduled (Some ''a.jpg'') 0 1000),
      (0, Scheduled (Some ''a.jpg'') 0 2000), (1000, Called 0), (1000, LazyError 0 3),
      (1000, LazyError 0 3), (1000, Called 1), (1000, LazyError 1 3), (1000, LazyError 1 3)] \<and>
   calls 1 (trace shared_url_run) = 1 \<and>
   calls_before_error 1 (trace shared_url_run) = 1 \<and>
   calls_before_error 0 (trace shared_url_run) = 2"
proof -
  have tr: "trace shared_url_run =
     [(0, Called 0), (0, Scheduled (Some ''a.jpg'') 0 1000),
      (0, Scheduled (Some ''a.jpg'') 0 2000), (1000, Called 0), (1000, LazyError 0 3),
      (1000, LazyError 0 3), (1000, Called 1), (1000, LazyError 1 3), (1000, LazyError 1 3)]"
    by code_simp
  show ?thesis
    unfolding tr by (simp add: calls_def calls_before_error_def is_error_def)
qed

text \<open>
  Claim C1, amended. Start with no counter above \<^verbatim>\<open>retryAttempts\<close>. Along any
  execution without \<^verbatim>\<open>destroy()\<close> no counter exceeds \<^verbatim>\<open>retryAttempts\<close>, and every
  \<^verbatim>\<open>lazyError\<close> dispatched carries \<^verbatim>\<open>attempts = retryAttempts + 1\<close>, the count under
  the element's payload key plus one. And when an element with no retry waiting is passed
  to \<^verbatim>\<open>loadElement\<close>, is not triggered again and none of its requests succeeds, then
  the calls of \<^verbatim>\<open>loadElement\<close> on it before it is marked errored, plus the count that
  was recorded under its key at the start, are at most \<^verbatim>\<open>retryAttempts + 1\<close>.
\<close>

theorem retry_policy_bound:
  assumes "bounded opts st0" and "EvDestroy \<notin> set evs"
  shows "bounded opts (run opts st0 evs) \<and>
         (\<forall>n \<in> set (error_counts (drop (length (trace st0)) (trace (run opts st0 evs)))).
            n = retryAttempts opts + 1) \<and>
         (i < length (doc st0) \<and> calls i (trace st0) = 0 \<and> \<not> errored i (trace st0) \<and>
          retries_waiting i st0 = 0 \<and> failing opts i (loadElement opts i st0) evs \<longrightarrow>
            calls_before_error i (trace (run opts (loadElement opts i st0) evs)) +
              get_attempts st0 (attemptKey (doc st0 ! i)) \<le> retryAttempts opts + 1)"
proof (intro conjI impI)
  have k: "policy_inv opts (length (trace st0)) (run opts st0 evs)"
    using bounded_policy_inv[OF assms(1)] assms(2) by (rule policy_inv_run)
  then show "bounded opts (run opts st0 evs)"
    by (rule policy_inv_bounded)
  show "\<forall>n \<in> set (error_counts (drop (length (trace st0)) (trace (run opts st0 evs)))).
            n = retryAttempts opts + 1"
    using k by (simp add: policy_inv_def)
next
  let ?k0 = "attemptKey (doc st0 ! i)"
  let ?c0 = "get_attempts st0 ?k0"
  let ?s1 = "loadElement opts i st0"
  let ?s = "run opts ?s1 evs"
  assume a: "i < length (doc st0) \<and> calls i (trace st0) = 0 \<and> \<not> errored i (trace st0) \<and>
          retries_waiting i st0 = 0 \<and> failing opts i (loadElement opts i st0) evs"
  then have "attempt_inv opts i ?k0 ?c0 (Suc 0) st0"
    by (simp add: attempt_inv_def)
  then have j1: "attempt_inv opts i ?k0 ?c0 0 ?s1"
    using assms(1) by (rule attempt_inv_loadElement_self)
  have k1: "policy_inv opts (length (trace st0)) ?s1"
    using bounded_policy_inv[OF assms(1)] by (rule policy_inv_loadElement)
  have j: "attempt_inv opts i ?k0 ?c0 0 ?s"
    using j1 k1 a by (intro attempt_inv_run) simp_all
  have "bounded opts ?s"
    using k1 assms(2) by (intro policy_inv_bounded[OF policy_inv_run])
  then have le: "get_attempts ?s ?k0 \<le> retryAttempts opts"
    by (simp add: bounded_def)
  show "calls_before_error i (trace ?s) + ?c0 \<le> retryAttempts opts + 1"
  proof (cases "errored i (trace ?s)")
    case True
    then show ?thesis using j by (simp add: attempt_inv_def)
  next
    case False
    then have "calls i (trace ?s) + retries_waiting i ?s + ?c0 \<le> 1 + get_attempts ?s ?k0"
      using j by (simp add: attempt_inv_def)
    then show ?thesis using le False by (simp add: cbe_calls)
  qed
qed

theorem retry_policy_bound_witness:
  "bounded default_options observed_state \<and> EvDestroy \<notin> set failing_events \<and>
   calls 0 (trace observed_state) = 0 \<and> \<not> errored 0 (trace observed_state) \<and>
   retries_waiting 0 observed_state = 0 \<and>
   failing default_options 0 (loadElement default_options 0 observed_state) failing_events \<and>
   bounded default_options
     (run default_options (loadElement default_options 0 observed_state) failing_events) \<and>
   calls_before_error 0
     (trace (run default_options (loadElement default_options 0 observed_state) failing_events))
     \<le> 3 \<and>
   error_counts
     (trace (run default_options (loadElement default_options 0 observed_state) failing_events))
     = [3, 3, 3, 3]"
proof -
  let ?s1 = "loadElement default_options 0 observed_state"
  have la: "loadAttempts observed_state = Map.empty"
    by (simp add: observed_state_def init_def observeElements_def observe_each_frame
        setupObserver_def fresh_def)
  have b0: "bounded default_options observed_state"
    by (simp add: bounded_def get_attempts_def la)
  have nd: "EvDestroy \<notin> set failing_events"
    by (simp add: failing_events_def)
  have h: "0 < length (doc observed_state)" "calls 0 (trace observed_state) = 0"
    "\<not> errored 0 (trace observed_state)" "retries_waiting 0 observed_state = 0"
    by code_simp+
  have f: "failing default_options 0 ?s1 failing_events"
    by code_simp
  have ec: "error_counts (trace (run default_options ?s1 failing_events)) = [3, 3, 3, 3]"
    by code_simp
  have b1: "bounded default_options ?s1"
    using b0 by (rule bounded_loadElement)
  have c0: "get_attempts observed_state (attemptKey (doc observed_state ! 0)) = 0"
    by (simp add: get_attempts_def la)
  have n: "retryAttempts default_options = 2"
    by (simp add: default_options_def)
  from retry_policy_bound[OF b0 nd, of 0] h f c0 n
  have "calls_before_error 0 (trace (run default_options ?s1 failing_events)) \<le> 3"
    by simp
  moreover from retry_policy_bound[OF b1 nd, of 0]
  have "bounded default_options (run default_options ?s1 failing_events)"
    by simp
  ultimately show ?thesis
    using b0 nd h f ec by simp
qed

subsection \<open>The backoff scenario\<close>

text \<open>
  A failure of a request that \<^verbatim>\<open>loadElement\<close> started reaches \<^verbatim>\<open>handleLoadError\<close>
  twice: from the loader's own error callback and from the \<^verbatim>\<open>catch\<close> of
  \<^verbatim>\<open>loadElement\<close>. With two attempts left, one failure sets two retry timers.
\<close>

lemma failure_through_loadElement:
  assumes "get_attempts st (attemptKey (doc st ! i)) + 1 < retryAttempts opts"
  shows "timers (loader_failed opts Rehandle i st) =
           timers st @
           [(now st + retryDelay opts * (get_attempts st (attemptKey (doc st ! i)) + 1), Retry i),
            (now st + retryDelay opts * (get_attempts st (attemptKey (doc st ! i)) + 2), Retry i)]"
proof -
  let ?k = "attemptKey (doc st ! i)"
  let ?s1 = "handleLoadError opts i st"
  have r1: "get_attempts st ?k < retryAttempts opts"
    using assms by simp
  note h1 = handleLoadError_retry[OF r1]
  have g: "get_attempts ?s1 (attemptKey (doc ?s1 ! i)) = get_attempts st ?k + 1"
    by (simp add: h1(1) get_attempts_def h1(2))
  then have r2: "get_attempts ?s1 (attemptKey (doc ?s1 ! i)) < retryAttempts opts"
    using assms by simp
  note h2 = handleLoadError_retry[OF r2]
  show ?thesis
    by (simp add: loader_failed_def rejected_def h2(3) h1(3) g)
qed

text \<open>
  Claim C4 at its scenario (\<^verbatim>\<open>retryAttempts = 2\<close>, \<^verbatim>\<open>retryDelay = 1000\<close>): the first
  failure schedules both retries, 1000 ms and 2000 ms after itself; the second call comes
  at 1000 and its failure marks the element errored; the third call comes at 2000, which
  is 1000 ms after the failure before it.
\<close>

theorem backoff_scenario_trace:
  "trace unreachable_image_run =
     [(0, Called 0), (0, Scheduled (Some ''a.jpg'') 0 1000),
      (0, Scheduled (Some ''a.jpg'') 0 2000), (1000, Called 0), (1000, LazyError 0 3),
      (1000, LazyError 0 3), (2000, Called 0), (2000, LazyError 0 3), (2000, LazyError 0 3)]"
  by code_simp

end
